theory Spec2Isabelle
  imports Complex_Main "HOL-Library.Log_Nat" "HOL-Library.AList" "HOL-Library.Char_ord"
    "HOL-Library.List_Lexorder"
begin

section \<open>Python values and exceptions\<close>

text \<open>
  The module \<^verbatim>\<open>util.py\<close> is a Python 3 script (its first line asks for
  \<^verbatim>\<open>python3\<close>) and is modelled with the semantics of Python 3, as CPython 3.11 implements
  it. One function, \<^verbatim>\<open>compute_darkness_and_width\<close>, was written for Python 2 and left
  as it was: its pixel loop calls \<^verbatim>\<open>xrange\<close>, a name that Python 3 does not have and
  the module does not define. That function alone is modelled for both interpreters.

  An exception is a value of \<open>py_error\<close>; a function that can raise returns
  \<open>py_error + 'a\<close>, with \<open>Inl\<close> for the exception. \<open>CsvError\<close> is \<^verbatim>\<open>csv.Error\<close>.
  These are all built-in exceptions: the module defines no exception class of its own and
  has no \<^verbatim>\<open>try\<close> statement other than the \<^verbatim>\<open>try ... finally\<close> that frees the
  FreeType face.
\<close>

datatype py_error =
  ValueError | OverflowError | ZeroDivisionError | IndexError | KeyError | StopIteration
  | NameError | TypeError | CsvError

datatype interpreter = Python2 | Python3

subsection \<open>Floats: IEEE 754 binary64, round to nearest, ties to even\<close>

text \<open>
  A Python float is a C double. Finite values are the rationals they denote (the two zeros
  are identified: no operation of the module tells them apart); the infinities and NaN are
  separate constructors. Every arithmetic operation computes the exact rational result and
  rounds it once.
\<close>

datatype pyfloat = Finite rat | PInf | NInf | NaN

definition round_half_even :: "rat \<Rightarrow> int" where
  "round_half_even n =
     (let f = \<lfloor>n\<rfloor>; d = n - of_int f
      in if d < 1/2 then f else if 1/2 < d then f + 1 else if even f then f else f + 1)"

text \<open>\<open>ilog2 a\<close> is the binary exponent of \<open>a > 0\<close>: \<open>2 powi ilog2 a \<le> a < 2 powi (ilog2 a + 1)\<close>.\<close>

definition ilog2 :: "rat \<Rightarrow> int" where
  "ilog2 a = (if 1 \<le> a then bitlen \<lfloor>a\<rfloor> - 1 else - bitlen (\<lceil>1 / a\<rceil> - 1))"

text \<open>
  The exponent of the unit in the last place: 53 significant bits, and never below
  \<open>-1074\<close>, the spacing of the subnormal numbers.
\<close>

definition ulp_exp :: "rat \<Rightarrow> int" where
  "ulp_exp a = max (ilog2 a - 52) (- 1074)"

definition round_mag :: "rat \<Rightarrow> rat" where
  "round_mag a = of_int (round_half_even (a / 2 powi ulp_exp a)) * 2 powi ulp_exp a"

definition round_to_double :: "rat \<Rightarrow> rat" where
  "round_to_double x = (if x < 0 then - round_mag (- x) else round_mag x)"

text \<open>The least positive double, the spacing of the grid all doubles lie on.\<close>

definition min_subnormal :: rat where
  "min_subnormal = 2 powi (- 1074)"

text \<open>Rounding overflows to an infinity when the rounded exponent exceeds 1023.\<close>

definition fl :: "rat \<Rightarrow> pyfloat" where
  "fl x =
     (let r = round_to_double x
      in if r \<noteq> 0 \<and> 1024 \<le> ilog2 \<bar>r\<bar> then (if 0 < r then PInf else NInf) else Finite r)"

text \<open>A rational is a double when rounding leaves it unchanged.\<close>

definition is_double :: "rat \<Rightarrow> bool" where
  "is_double x \<longleftrightarrow> fl x = Finite x"

fun valid_float :: "pyfloat \<Rightarrow> bool" where
  "valid_float (Finite x) = is_double x"
| "valid_float _ = True"

fun fsign :: "pyfloat \<Rightarrow> int" where
  "fsign (Finite x) = sgn \<lfloor>sgn x\<rfloor>"
| "fsign PInf = 1"
| "fsign NInf = - 1"
| "fsign NaN = 0"

fun fadd :: "pyfloat \<Rightarrow> pyfloat \<Rightarrow> pyfloat" where
  "fadd (Finite x) (Finite y) = fl (x + y)"
| "fadd NaN _ = NaN"
| "fadd _ NaN = NaN"
| "fadd PInf NInf = NaN"
| "fadd NInf PInf = NaN"
| "fadd PInf _ = PInf"
| "fadd NInf _ = NInf"
| "fadd _ PInf = PInf"
| "fadd _ NInf = NInf"

fun fsub :: "pyfloat \<Rightarrow> pyfloat \<Rightarrow> pyfloat" where
  "fsub (Finite x) (Finite y) = fl (x - y)"
| "fsub NaN _ = NaN"
| "fsub _ NaN = NaN"
| "fsub PInf PInf = NaN"
| "fsub NInf NInf = NaN"
| "fsub PInf _ = PInf"
| "fsub NInf _ = NInf"
| "fsub _ PInf = NInf"
| "fsub _ NInf = PInf"

fun fmul :: "pyfloat \<Rightarrow> pyfloat \<Rightarrow> pyfloat" where
  "fmul (Finite x) (Finite y) = fl (x * y)"
| "fmul NaN _ = NaN"
| "fmul _ NaN = NaN"
| "fmul a b =
     (if fsign a * fsign b = 0 then NaN else if 0 < fsign a * fsign b then PInf else NInf)"

text \<open>Python raises \<^verbatim>\<open>ZeroDivisionError\<close> for a float division by zero.\<close>

fun fdiv :: "pyfloat \<Rightarrow> pyfloat \<Rightarrow> py_error + pyfloat" where
  "fdiv a (Finite y) =
     (if y = 0 then Inl ZeroDivisionError
      else case a of
        Finite x \<Rightarrow> Inr (fl (x / y))
      | NaN \<Rightarrow> Inr NaN
      | _ \<Rightarrow> Inr (if 0 < fsign a * fsign (Finite y) then PInf else NInf))"
| "fdiv a NaN = Inr NaN"
| "fdiv (Finite x) _ = Inr (Finite 0)"
| "fdiv _ _ = Inr NaN"

text \<open>Comparisons: every comparison with NaN is false.\<close>

fun flt :: "pyfloat \<Rightarrow> pyfloat \<Rightarrow> bool" where
  "flt (Finite x) (Finite y) \<longleftrightarrow> x < y"
| "flt NaN _ \<longleftrightarrow> False"
| "flt _ NaN \<longleftrightarrow> False"
| "flt NInf NInf \<longleftrightarrow> False"
| "flt NInf _ \<longleftrightarrow> True"
| "flt PInf _ \<longleftrightarrow> False"
| "flt _ PInf \<longleftrightarrow> True"
| "flt _ NInf \<longleftrightarrow> False"

definition feq :: "pyfloat \<Rightarrow> pyfloat \<Rightarrow> bool" where
  "feq a b \<longleftrightarrow> a \<noteq> NaN \<and> a = b"

text \<open>\<^verbatim>\<open>math.floor\<close> returns an integer, and rejects NaN and the infinities.\<close>

fun py_floor :: "pyfloat \<Rightarrow> py_error + int" where
  "py_floor (Finite x) = Inr \<lfloor>x\<rfloor>"
| "py_floor NaN = Inl ValueError"
| "py_floor _ = Inl OverflowError"

text \<open>
  \<^verbatim>\<open>min\<close> and \<^verbatim>\<open>max\<close> of a sequence keep the first item and replace it by a later
  one that compares strictly smaller (greater); the empty sequence raises \<^verbatim>\<open>ValueError\<close>.
\<close>

fun py_min_from :: "pyfloat \<Rightarrow> pyfloat list \<Rightarrow> pyfloat" where
  "py_min_from cur [] = cur"
| "py_min_from cur (x # xs) = py_min_from (if flt x cur then x else cur) xs"

fun py_max_from :: "pyfloat \<Rightarrow> pyfloat list \<Rightarrow> pyfloat" where
  "py_max_from cur [] = cur"
| "py_max_from cur (x # xs) = py_max_from (if flt cur x then x else cur) xs"

definition py_min :: "pyfloat list \<Rightarrow> py_error + pyfloat" where
  "py_min xs = (case xs of [] \<Rightarrow> Inl ValueError | x # rest \<Rightarrow> Inr (py_min_from x rest))"

definition py_max :: "pyfloat list \<Rightarrow> py_error + pyfloat" where
  "py_max xs = (case xs of [] \<Rightarrow> Inl ValueError | x # rest \<Rightarrow> Inr (py_max_from x rest))"

section \<open>Normalisation of a batch: \<^verbatim>\<open>find_extremes\<close> and \<^verbatim>\<open>group_by_attributes\<close>\<close>

text \<open>
  A dict is an association list with distinct keys, in insertion order; \<^verbatim>\<open>d[k] = v\<close> is
  \<open>AList.update k v d\<close>, \<^verbatim>\<open>d[k]\<close> is \<open>map_of d k\<close> (\<^verbatim>\<open>KeyError\<close> when absent) and
  \<^verbatim>\<open>d.values()\<close> is \<open>map snd d\<close>.
\<close>

definition find_extremes :: "('k \<times> pyfloat) list \<Rightarrow> py_error + (pyfloat \<times> pyfloat)" where
  "find_extremes d =
     (let values = map snd d
      in case py_min values of
           Inl e \<Rightarrow> Inl e
         | Inr lo \<Rightarrow> (case py_max values of Inl e \<Rightarrow> Inl e | Inr hi \<Rightarrow> Inr (lo, hi)))"

text \<open>
  The first loop of \<^verbatim>\<open>group_by_attributes\<close>. The rasteriser behind
  \<^verbatim>\<open>compute_darkness_and_width\<close> is outside the module, so the measurement is a
  parameter \<open>cdw\<close>; an exception it raises ends the run.
\<close>

fun measure_fonts ::
  "(string \<Rightarrow> 's \<Rightarrow> py_error + (pyfloat \<times> pyfloat)) \<Rightarrow> (string \<times> 's) list \<Rightarrow>
   (string \<times> pyfloat) list \<Rightarrow> (string \<times> pyfloat) list \<Rightarrow>
   py_error + ((string \<times> pyfloat) list \<times> (string \<times> pyfloat) list)" where
  "measure_fonts cdw [] darkness width = Inr (darkness, width)"
| "measure_fonts cdw ((name, subsets) # fonts) darkness width =
     (case cdw name subsets of
        Inl e \<Rightarrow> Inl e
      | Inr (d, w) \<Rightarrow>
          measure_fonts cdw fonts (AList.update name d darkness) (AList.update name w width))"

text \<open>
  \<^verbatim>\<open>min(10, int(1 + floor(10 * ((v - lo) / range))))\<close>, evaluated inside out; \<^verbatim>\<open>int\<close> of
  an integer is that integer.
\<close>

definition band_of :: "pyfloat \<Rightarrow> pyfloat \<Rightarrow> pyfloat \<Rightarrow> py_error + int" where
  "band_of v lo rng =
     (case fdiv (fsub v lo) rng of
        Inl e \<Rightarrow> Inl e
      | Inr q \<Rightarrow>
          (case py_floor (fmul (Finite 10) q) of
             Inl e \<Rightarrow> Inl e
           | Inr n \<Rightarrow> Inr (min 10 (1 + n))))"

fun assign_bands ::
  "(string \<times> pyfloat) list \<Rightarrow> pyfloat \<Rightarrow> pyfloat \<Rightarrow> (string \<times> 's) list \<Rightarrow>
   (string \<times> int) list \<Rightarrow> py_error + (string \<times> int) list" where
  "assign_bands raw lo rng [] bands = Inr bands"
| "assign_bands raw lo rng ((name, subsets) # fonts) bands =
     (case map_of raw name of
        None \<Rightarrow> Inl KeyError
      | Some v \<Rightarrow>
          (case band_of v lo rng of
             Inl e \<Rightarrow> Inl e
           | Inr b \<Rightarrow> assign_bands raw lo rng fonts (AList.update name b bands)))"

fun midpoint_bands :: "(string \<times> 's) list \<Rightarrow> (string \<times> int) list \<Rightarrow> (string \<times> int) list" where
  "midpoint_bands [] bands = bands"
| "midpoint_bands ((name, subsets) # fonts) bands = midpoint_bands fonts (AList.update name 5 bands)"

text \<open>
  The source normalises the weights and then the widths with the same block of code,
  written out twice; \<open>normalize\<close> is that block.
\<close>

definition normalize ::
  "(string \<times> pyfloat) list \<Rightarrow> (string \<times> 's) list \<Rightarrow> py_error + (string \<times> int) list" where
  "normalize raw fonts =
     (case find_extremes raw of
        Inl e \<Rightarrow> Inl e
      | Inr (lo, hi) \<Rightarrow>
          (let rng = fsub hi lo
           in if feq rng (Finite 0) then Inr (midpoint_bands fonts [])
              else assign_bands raw lo rng fonts []))"

definition group_by_attributes ::
  "(string \<Rightarrow> 's \<Rightarrow> py_error + (pyfloat \<times> pyfloat)) \<Rightarrow> (string \<times> 's) list \<Rightarrow>
   py_error + ((string \<times> int) list \<times> (string \<times> int) list)" where
  "group_by_attributes cdw fonts =
     (case measure_fonts cdw fonts [] [] of
        Inl e \<Rightarrow> Inl e
      | Inr (darkness, width) \<Rightarrow>
          (case normalize darkness fonts of
             Inl e \<Rightarrow> Inl e
           | Inr weights \<Rightarrow>
               (case normalize width fonts of
                  Inl e \<Rightarrow> Inl e
                | Inr widths \<Rightarrow> Inr (weights, widths))))"

section \<open>The record store: \<^verbatim>\<open>save_csv\<close> and \<^verbatim>\<open>read_csv\<close>\<close>

text \<open>
  A record of the metadata is the dict with the keys \<^verbatim>\<open>weight_int\<close>, \<^verbatim>\<open>angle_int\<close>,
  \<^verbatim>\<open>width_int\<close>, \<^verbatim>\<open>usage\<close> and \<^verbatim>\<open>subsets\<close>; the bands are integers, the usage is a
  string and the subsets are a string or \<^verbatim>\<open>None\<close>. The metadata maps font identifiers
  to records: an association list with distinct keys. A string is a list of characters
  with codes below 256, and a file is the string of its content.
\<close>

record font_data =
  weight_int :: int
  angle_int :: int
  width_int :: int
  usage :: string
  subsets :: "string option"

abbreviation LF :: char where "LF \<equiv> CHR 0x0A"
abbreviation CR :: char where "CR \<equiv> CHR 0x0D"
abbreviation DQUOTE :: char where "DQUOTE \<equiv> CHR 0x22"
abbreviation COMMA :: char where "COMMA \<equiv> CHR 0x2C"

subsection \<open>Integers as text: \<^verbatim>\<open>str\<close> and \<^verbatim>\<open>int\<close>\<close>

text \<open>
  The conversions are exact for every integer (the interpreter's optional limit on the
  length of a decimal conversion is left out).
\<close>

definition digit_char :: "nat \<Rightarrow> char" where
  "digit_char d = char_of (48 + d)"

function str_nat :: "nat \<Rightarrow> string" where
  "str_nat n = (if n < 10 then [digit_char n] else str_nat (n div 10) @ [digit_char (n mod 10)])"
  by pat_completeness auto
termination
  by (relation "measure id") auto

definition str_int :: "int \<Rightarrow> string" where
  "str_int n = (if n < 0 then CHR ''-'' # str_nat (nat (- n)) else str_nat (nat n))"

text \<open>
  \<^verbatim>\<open>int(s)\<close> of a string: white space around the literal is dropped, a sign may follow,
  then come decimal digits, which single underscores may separate; anything else raises
  \<^verbatim>\<open>ValueError\<close>.
\<close>

definition is_space :: "char \<Rightarrow> bool" where
  "is_space c \<longleftrightarrow> (of_char c :: nat) \<in> {9, 10, 11, 12, 13, 32, 133, 160}"

definition is_digit :: "char \<Rightarrow> bool" where
  "is_digit c \<longleftrightarrow> 48 \<le> (of_char c :: nat) \<and> (of_char c :: nat) \<le> 57"

definition digit_val :: "char \<Rightarrow> nat" where
  "digit_val c = of_char c - 48"

fun scan_digits :: "string \<Rightarrow> nat \<Rightarrow> bool \<Rightarrow> nat option" where
  "scan_digits [] acc after_digit = (if after_digit then Some acc else None)"
| "scan_digits (c # cs) acc after_digit =
     (if is_digit c then scan_digits cs (10 * acc + digit_val c) True
      else if c = CHR ''_'' \<and> after_digit then scan_digits cs acc False
      else None)"

definition strip :: "string \<Rightarrow> string" where
  "strip s = rev (dropWhile is_space (rev (dropWhile is_space s)))"

definition py_int_of_string :: "string \<Rightarrow> py_error + int" where
  "py_int_of_string s =
     (let t = strip s;
          negative = (t \<noteq> [] \<and> hd t = CHR ''-'');
          body = (if t \<noteq> [] \<and> (hd t = CHR ''-'' \<or> hd t = CHR ''+'') then tl t else t)
      in case scan_digits body 0 False of
           None \<Rightarrow> Inl ValueError
         | Some n \<Rightarrow> Inr (if negative then - int n else int n))"

subsection \<open>The writer\<close>

text \<open>
  \<^verbatim>\<open>csv.writer(csvfile, delimiter=',', quotechar='"', lineterminator='\n')\<close>, with the
  default minimal quoting: a field is quoted when it contains the delimiter, the quote
  character, a line feed or a carriage return, and an empty field when it is the only field
  of its row; inside the quotes a quote character is doubled. \<^verbatim>\<open>None\<close> is written as the
  empty string, an integer as \<^verbatim>\<open>str\<close> of it.
\<close>

datatype cell = IntCell int | StrCell string | NoneCell

fun cell_text :: "cell \<Rightarrow> string" where
  "cell_text (IntCell n) = str_int n"
| "cell_text (StrCell s) = s"
| "cell_text NoneCell = []"

definition needs_quote :: "string \<Rightarrow> bool" where
  "needs_quote s = list_ex (\<lambda>c. c = COMMA \<or> c = DQUOTE \<or> c = LF \<or> c = CR) s"

definition double_quotes :: "string \<Rightarrow> string" where
  "double_quotes s = concat (map (\<lambda>c. if c = DQUOTE then [DQUOTE, DQUOTE] else [c]) s)"

definition write_field :: "bool \<Rightarrow> string \<Rightarrow> string" where
  "write_field only_field s =
     (if needs_quote s \<or> (s = [] \<and> only_field) then DQUOTE # double_quotes s @ [DQUOTE] else s)"

fun join_fields :: "string list \<Rightarrow> string" where
  "join_fields [] = []"
| "join_fields [f] = f"
| "join_fields (f # fs) = f @ COMMA # join_fields fs"

definition writerow :: "cell list \<Rightarrow> string" where
  "writerow row = join_fields (map (\<lambda>c. write_field (length row = 1) (cell_text c)) row) @ [LF]"

subsection \<open>\<^verbatim>\<open>save_csv\<close>\<close>

text \<open>\<^verbatim>\<open>if fwe-1 not in range(10): fwe = ''\<close>, for each of the three bands.\<close>

definition blank_outside_range :: "int \<Rightarrow> cell" where
  "blank_outside_range band = (if band - 1 \<in> set [0..9] then IntCell band else StrCell [])"

definition save_row :: "bool \<Rightarrow> string \<Rightarrow> font_data \<Rightarrow> cell list" where
  "save_row cleanup_for_publishing gfn data =
     (if cleanup_for_publishing
      then [StrCell gfn,
            blank_outside_range (weight_int data),
            blank_outside_range (angle_int data),
            blank_outside_range (width_int data),
            StrCell (if usage data \<in> set [''body'', ''header''] then usage data else [])]
      else [StrCell gfn, IntCell (weight_int data), IntCell (angle_int data),
            IntCell (width_int data), StrCell (usage data),
            (case subsets data of None \<Rightarrow> NoneCell | Some s \<Rightarrow> StrCell s)])"

definition csv_header :: "bool \<Rightarrow> cell list" where
  "csv_header cleanup_for_publishing =
     map StrCell ([''GFN'', ''FWE'', ''FIA'', ''FWI'', ''USAGE'']
                  @ (if cleanup_for_publishing then [] else [''SUBSETS'']))"

text \<open>
  The rows follow \<^verbatim>\<open>sorted(metadata.keys())\<close>: the items of the dict in the order of their
  keys. The result is the content of the file written.
\<close>

definition save_csv :: "(string \<times> font_data) list \<Rightarrow> bool \<Rightarrow> string" where
  "save_csv metadata cleanup_for_publishing =
     concat (map writerow
       (csv_header cleanup_for_publishing
        # map (\<lambda>(gfn, data). save_row cleanup_for_publishing gfn data) (sort_key fst metadata)))"

subsection \<open>The reader\<close>

text \<open>
  \<^verbatim>\<open>open(filename)\<close> reads in text mode with universal newlines: a carriage return, alone
  or before a line feed, arrives as a line feed.
\<close>

fun universal_newlines :: "string \<Rightarrow> string" where
  "universal_newlines [] = []"
| "universal_newlines [c] = (if c = CR then [LF] else [c])"
| "universal_newlines (c # d # cs) =
     (if c = CR \<and> d = LF then LF # universal_newlines cs
      else if c = CR then LF # universal_newlines (d # cs)
      else c # universal_newlines (d # cs))"

text \<open>
  The reader takes the file line by line (a line ends after its line feed) and gives its
  parser every character of the line and then an end-of-line marker, \<open>None\<close> here.
\<close>

definition line_events :: "string \<Rightarrow> char option list" where
  "line_events s = concat (map (\<lambda>c. if c = LF then [Some c, None] else [Some c]) s)"

definition reader_events :: "string \<Rightarrow> char option list" where
  "reader_events s = line_events s @ (if s = [] \<or> last s = LF then [] else [None])"

datatype parser_state =
  START_RECORD | START_FIELD | IN_FIELD | IN_QUOTED_FIELD | QUOTE_IN_QUOTED_FIELD | EAT_CRNL

record reader =
  state :: parser_state
  field :: string
  row_fields :: "string list"

definition reader_reset :: reader where
  "reader_reset = \<lparr>state = START_RECORD, field = [], row_fields = []\<rparr>"

text \<open>A field may hold \<^verbatim>\<open>csv.field_size_limit()\<close> characters, 131072.\<close>

definition parse_add_char :: "reader \<Rightarrow> char \<Rightarrow> parser_state \<Rightarrow> py_error + reader" where
  "parse_add_char r c next_state =
     (if 131072 \<le> length (field r) then Inl CsvError
      else Inr (r\<lparr>state := next_state, field := field r @ [c]\<rparr>))"

definition parse_save_field :: "reader \<Rightarrow> parser_state \<Rightarrow> reader" where
  "parse_save_field r next_state = r\<lparr>state := next_state, field := [], row_fields := row_fields r @ [field r]\<rparr>"

definition is_line_end :: "char option \<Rightarrow> bool" where
  "is_line_end ev \<longleftrightarrow> ev = None \<or> ev = Some LF \<or> ev = Some CR"

definition after_line_end :: "char option \<Rightarrow> parser_state" where
  "after_line_end ev = (if ev = None then START_RECORD else EAT_CRNL)"

text \<open>
  The parser of the \<^verbatim>\<open>csv\<close> module, for a dialect without escape character, not strict
  and not skipping initial space.
\<close>

fun parse_process_char :: "reader \<Rightarrow> char option \<Rightarrow> py_error + reader" where
  "parse_process_char r ev =
     (case state r of
        START_RECORD \<Rightarrow>
          (if ev = None then Inr r
           else if is_line_end ev then Inr (r\<lparr>state := EAT_CRNL\<rparr>)
           else if ev = Some DQUOTE then Inr (r\<lparr>state := IN_QUOTED_FIELD\<rparr>)
           else if ev = Some COMMA then Inr (parse_save_field r START_FIELD)
           else parse_add_char r (the ev) IN_FIELD)
      | START_FIELD \<Rightarrow>
          (if is_line_end ev then Inr (parse_save_field r (after_line_end ev))
           else if ev = Some DQUOTE then Inr (r\<lparr>state := IN_QUOTED_FIELD\<rparr>)
           else if ev = Some COMMA then Inr (parse_save_field r START_FIELD)
           else parse_add_char r (the ev) IN_FIELD)
      | IN_FIELD \<Rightarrow>
          (if is_line_end ev then Inr (parse_save_field r (after_line_end ev))
           else if ev = Some COMMA then Inr (parse_save_field r START_FIELD)
           else parse_add_char r (the ev) IN_FIELD)
      | IN_QUOTED_FIELD \<Rightarrow>
          (if ev = None then Inr r
           else if ev = Some DQUOTE then Inr (r\<lparr>state := QUOTE_IN_QUOTED_FIELD\<rparr>)
           else parse_add_char r (the ev) IN_QUOTED_FIELD)
      | QUOTE_IN_QUOTED_FIELD \<Rightarrow>
          (if ev = Some DQUOTE then parse_add_char r DQUOTE IN_QUOTED_FIELD
           else if ev = Some COMMA then Inr (parse_save_field r START_FIELD)
           else if is_line_end ev then Inr (parse_save_field r (after_line_end ev))
           else parse_add_char r (the ev) IN_FIELD)
      | EAT_CRNL \<Rightarrow>
          (if ev = None then Inr (r\<lparr>state := START_RECORD\<rparr>)
           else if is_line_end ev then Inr r
           else Inl CsvError))"

text \<open>
  The rows the reader yields, and the exception that ends the iteration early, if any. A
  row is complete when the parser is back at the start of a record after the end of a
  line; at the end of the file an unfinished quoted field closes the last row.
\<close>

fun run_reader :: "reader \<Rightarrow> char option list \<Rightarrow> string list list \<times> py_error option" where
  "run_reader r [] =
     (if field r \<noteq> [] \<or> state r = IN_QUOTED_FIELD then ([row_fields r @ [field r]], None)
      else ([], None))"
| "run_reader r (ev # evs) =
     (case parse_process_char r ev of
        Inl e \<Rightarrow> ([], Some e)
      | Inr r' \<Rightarrow>
          if ev = None \<and> state r' = START_RECORD
          then (case run_reader reader_reset evs of (rows, err) \<Rightarrow> (row_fields r' # rows, err))
          else run_reader r' evs)"

definition csv_reader :: "string \<Rightarrow> string list list \<times> py_error option" where
  "csv_reader content = run_reader reader_reset (reader_events (universal_newlines content))"

subsection \<open>\<^verbatim>\<open>read_csv\<close>\<close>

definition py_index :: "'a list \<Rightarrow> nat \<Rightarrow> py_error + 'a" where
  "py_index xs i = (if i < length xs then Inr (xs ! i) else Inl IndexError)"

text \<open>The body of the loop over the rows, in the order in which it reads the row.\<close>

definition row_record :: "string list \<Rightarrow> py_error + (string \<times> font_data)" where
  "row_record row =
     (case py_index row 0 of Inl e \<Rightarrow> Inl e | Inr gfn \<Rightarrow>
      (case (if length row < 6 then Inr None else map_sum id Some (py_index row 5)) of
         Inl e \<Rightarrow> Inl e | Inr subs \<Rightarrow>
      (case py_index row 1 of Inl e \<Rightarrow> Inl e | Inr f1 \<Rightarrow>
      (case py_int_of_string f1 of Inl e \<Rightarrow> Inl e | Inr fwe \<Rightarrow>
      (case py_index row 2 of Inl e \<Rightarrow> Inl e | Inr f2 \<Rightarrow>
      (case py_int_of_string f2 of Inl e \<Rightarrow> Inl e | Inr fia \<Rightarrow>
      (case py_index row 3 of Inl e \<Rightarrow> Inl e | Inr f3 \<Rightarrow>
      (case py_int_of_string f3 of Inl e \<Rightarrow> Inl e | Inr fwi \<Rightarrow>
      (case py_index row 4 of Inl e \<Rightarrow> Inl e | Inr u \<Rightarrow>
         Inr (gfn, \<lparr>weight_int = fwe, angle_int = fia, width_int = fwi, usage = u,
                   subsets = subs\<rparr>))))))))))"

fun read_rows :: "string list list \<Rightarrow> (string \<times> font_data) list \<Rightarrow> py_error + (string \<times> font_data) list" where
  "read_rows [] metadata = Inr metadata"
| "read_rows (row # rows) metadata =
     (case row_record row of
        Inl e \<Rightarrow> Inl e
      | Inr (gfn, data) \<Rightarrow> read_rows rows (AList.update gfn data metadata))"

text \<open>
  \<^verbatim>\<open>next(existing_data)\<close> drops the first row, and raises \<^verbatim>\<open>StopIteration\<close> when there
  is none. An exception of the reader is raised after the rows before it have been read.
\<close>

definition read_csv :: "string \<Rightarrow> py_error + (string \<times> font_data) list" where
  "read_csv content =
     (case csv_reader content of
        ([], None) \<Rightarrow> Inl StopIteration
      | ([], Some e) \<Rightarrow> Inl e
      | (header # rows, err) \<Rightarrow>
          (case read_rows rows [] of
             Inl e \<Rightarrow> Inl e
           | Inr metadata \<Rightarrow> (case err of None \<Rightarrow> Inr metadata | Some e \<Rightarrow> Inl e)))"

section \<open>Sample inputs\<close>

subsection \<open>A sample batch\<close>

text \<open>
  Three fonts with darkness \<open>0.125\<close>, \<open>0.25\<close>, \<open>0.5\<close> and relative width \<open>2.0\<close>,
  \<open>3.0\<close>, \<open>4.0\<close>, and a batch whose fonts all measure the same.
\<close>

definition example_fonts :: "(string \<times> unit) list" where
  "example_fonts = [(''Light.ttf'', ()), (''Regular.ttf'', ()), (''Bold.ttf'', ())]"

definition example_measure :: "string \<Rightarrow> unit \<Rightarrow> py_error + (pyfloat \<times> pyfloat)" where
  "example_measure name subs =
     (if name = ''Light.ttf'' then Inr (Finite (1/8), Finite 2)
      else if name = ''Regular.ttf'' then Inr (Finite (1/4), Finite 3)
      else Inr (Finite (1/2), Finite 4))"

definition tied_measure :: "string \<Rightarrow> unit \<Rightarrow> py_error + (pyfloat \<times> pyfloat)" where
  "tied_measure name subs = Inr (Finite (1/4), Finite 3)"


subsection \<open>The batch of the specification's worked example\<close>

text \<open>
  \<^verbatim>\<open>{FontA: darkness 0.10, FontB: darkness 0.30, FontC: darkness 0.50}\<close>. A float literal
  denotes the double nearest to the decimal, \<open>fl\<close> of the rational; the example gives no
  widths, and the model measures the width \<open>1.0\<close> for every font.
\<close>

definition spec_fonts :: "(string \<times> unit) list" where
  "spec_fonts = [(''FontA'', ()), (''FontB'', ()), (''FontC'', ())]"

definition spec_darkness :: "(string \<times> pyfloat) list" where
  "spec_darkness = [(''FontA'', fl (10 / 100)), (''FontB'', fl (30 / 100)), (''FontC'', fl (50 / 100))]"

definition spec_measure :: "string \<Rightarrow> unit \<Rightarrow> py_error + (pyfloat \<times> pyfloat)" where
  "spec_measure name subs =
     (case map_of spec_darkness name of
        Some d \<Rightarrow> Inr (d, Finite 1)
      | None \<Rightarrow> Inl KeyError)"

section \<open>The darkness of a rendered surface: \<^verbatim>\<open>compute_darkness_and_width\<close>\<close>

text \<open>
  Font loading and rendering are done by the cairo and FreeType libraries; the model starts
  where the rendered surface is read back: its byte buffer \<open>pixel_data\<close>, its
  \<open>data_width\<close>, \<open>data_stride\<close> and \<open>data_height\<close>, together with the
  \<open>text_width\<close> and \<open>x_height\<close> of the two text extents.

  \<^verbatim>\<open>xrange(n)\<close> looks the name \<^verbatim>\<open>xrange\<close> up first. Python 2 finds the built-in and
  the loop runs over \<open>0, ..., n - 1\<close>; Python 3 finds nothing and raises
  \<^verbatim>\<open>NameError\<close>, whatever \<open>n\<close> is.
\<close>

definition xrange :: "interpreter \<Rightarrow> nat \<Rightarrow> py_error + nat list" where
  "xrange interp n = (case interp of Python2 \<Rightarrow> Inr [0..<n] | Python3 \<Rightarrow> Inl NameError)"

text \<open>
  \<^verbatim>\<open>ord(pixel_data[y*data_stride + 4*x + 3])\<close>. Reading the buffer beyond its end raises
  \<^verbatim>\<open>IndexError\<close>. An item of a Python 2 buffer is a string of one byte and \<^verbatim>\<open>ord\<close>
  gives its value; an item of a Python 3 buffer is an integer, which \<^verbatim>\<open>ord\<close> rejects
  with \<^verbatim>\<open>TypeError\<close>.
\<close>

definition pixel_alpha :: "interpreter \<Rightarrow> char list \<Rightarrow> nat \<Rightarrow> nat \<Rightarrow> nat \<Rightarrow> py_error + nat" where
  "pixel_alpha interp pixel_data data_stride x y =
     (let i = y * data_stride + 4 * x + 3
      in if i < length pixel_data
         then (case interp of Python2 \<Rightarrow> Inr (of_char (pixel_data ! i)) | Python3 \<Rightarrow> Inl TypeError)
         else Inl IndexError)"

text \<open>
  The inner loop \<^verbatim>\<open>for y in xrange(data_height)\<close>, once its range is evaluated, and the
  outer loop over \<open>x\<close>, which evaluates the range of the inner loop at each turn.
\<close>

fun column_loop ::
  "interpreter \<Rightarrow> char list \<Rightarrow> nat \<Rightarrow> nat \<Rightarrow> nat list \<Rightarrow> pyfloat \<Rightarrow> py_error + pyfloat" where
  "column_loop interp pixel_data data_stride x [] avg = Inr avg"
| "column_loop interp pixel_data data_stride x (y # ys) avg =
     (case pixel_alpha interp pixel_data data_stride x y of
        Inl e \<Rightarrow> Inl e
      | Inr alpha \<Rightarrow>
          column_loop interp pixel_data data_stride x ys (fadd avg (fl (of_nat alpha / 255))))"

fun row_loop ::
  "interpreter \<Rightarrow> char list \<Rightarrow> nat \<Rightarrow> nat \<Rightarrow> nat list \<Rightarrow> pyfloat \<Rightarrow> py_error + pyfloat" where
  "row_loop interp pixel_data data_stride data_height [] avg = Inr avg"
| "row_loop interp pixel_data data_stride data_height (x # xs) avg =
     (case xrange interp data_height of
        Inl e \<Rightarrow> Inl e
      | Inr ys \<Rightarrow>
          (case column_loop interp pixel_data data_stride x ys avg of
             Inl e \<Rightarrow> Inl e
           | Inr avg' \<Rightarrow> row_loop interp pixel_data data_stride data_height xs avg'))"

text \<open>
  A float divided by an integer converts the integer first; an integer beyond the range of
  the doubles raises \<^verbatim>\<open>OverflowError\<close>.
\<close>

definition float_of_int :: "int \<Rightarrow> py_error + pyfloat" where
  "float_of_int n = (case fl (of_int n) of Finite r \<Rightarrow> Inr (Finite r) | _ \<Rightarrow> Inl OverflowError)"

definition compute_darkness_and_width ::
  "interpreter \<Rightarrow> char list \<Rightarrow> nat \<Rightarrow> nat \<Rightarrow> nat \<Rightarrow> pyfloat \<Rightarrow> pyfloat \<Rightarrow>
   py_error + (pyfloat \<times> pyfloat)" where
  "compute_darkness_and_width interp pixel_data data_width data_stride data_height text_width x_height =
     (case xrange interp data_width of
        Inl e \<Rightarrow> Inl e
      | Inr xs \<Rightarrow>
          (case row_loop interp pixel_data data_stride data_height xs (Finite 0) of
             Inl e \<Rightarrow> Inl e
           | Inr avg \<Rightarrow>
               (case float_of_int (int (data_width * data_height)) of
                  Inl e \<Rightarrow> Inl e
                | Inr area \<Rightarrow>
                    (case fdiv avg area of
                       Inl e \<Rightarrow> Inl e
                     | Inr darkness \<Rightarrow>
                         (case fdiv text_width x_height of
                            Inl e \<Rightarrow> Inl e
                          | Inr width \<Rightarrow> Inr (darkness, width))))))"

section \<open>Properties of the rounding\<close>

lemma rhe_lower: "\<lfloor>n\<rfloor> \<le> round_half_even n"
  by (simp add: round_half_even_def Let_def)

lemma rhe_upper: "round_half_even n \<le> \<lfloor>n\<rfloor> + 1"
  by (simp add: round_half_even_def Let_def)

lemma rhe_of_int: "round_half_even (of_int k) = k"
  by (simp add: round_half_even_def Let_def)

lemma rhe_mono:
  assumes "x \<le> y"
  shows "round_half_even x \<le> round_half_even y"
proof (cases "\<lfloor>x\<rfloor> = \<lfloor>y\<rfloor>")
  case True
  then show ?thesis
    using assms by (auto simp add: round_half_even_def Let_def)
next
  case False
  with assms have "\<lfloor>x\<rfloor> + 1 \<le> \<lfloor>y\<rfloor>"
    using floor_mono [of x y] by linarith
  then show ?thesis
    using rhe_upper [of x] rhe_lower [of y] by linarith
qed

lemma rhe_ge_int: "of_int k \<le> x \<Longrightarrow> k \<le> round_half_even x"
  using rhe_mono [of "of_int k" x] by (simp add: rhe_of_int)

lemma rhe_le_int: "x \<le> of_int k \<Longrightarrow> round_half_even x \<le> k"
  using rhe_mono [of x "of_int k"] by (simp add: rhe_of_int)

lemma two_powi_neg: "0 \<le> k \<Longrightarrow> (2 :: rat) powi (- k) = 1 / 2 ^ nat k"
  by (simp add: power_int_minus_divide power_int_nonneg_exp)

lemma pow2_le_of_int: "(2 :: int) ^ n \<le> m \<Longrightarrow> (2 :: rat) ^ n \<le> of_int m"
proof -
  assume "(2 :: int) ^ n \<le> m"
  then have "(of_int ((2 :: int) ^ n) :: rat) \<le> of_int m"
    by (simp only: of_int_le_iff)
  then show ?thesis by simp
qed

lemma of_int_le_pow2: "m \<le> (2 :: int) ^ n \<Longrightarrow> of_int m \<le> (2 :: rat) ^ n"
proof -
  assume "m \<le> (2 :: int) ^ n"
  then have "(of_int m :: rat) \<le> of_int ((2 :: int) ^ n)"
    by (simp only: of_int_le_iff)
  then show ?thesis by simp
qed

lemma ilog2_bounds:
  assumes "0 < a"
  shows "2 powi ilog2 a \<le> a" and "a < 2 powi (ilog2 a + 1)"
proof -
  show "2 powi ilog2 a \<le> a"
  proof (cases "1 \<le> a")
    case True
    then have pos: "0 < \<lfloor>a\<rfloor>" by simp
    from bitlen_bounds [OF pos] have "2 ^ nat (bitlen \<lfloor>a\<rfloor> - 1) \<le> \<lfloor>a\<rfloor>" ..
    then have "(of_int (2 ^ nat (bitlen \<lfloor>a\<rfloor> - 1)) :: rat) \<le> of_int \<lfloor>a\<rfloor>"
      by (simp only: of_int_le_iff)
    also have "\<dots> \<le> a" by simp
    finally have "(2 :: rat) ^ nat (bitlen \<lfloor>a\<rfloor> - 1) \<le> a" by simp
    moreover from pos have "1 \<le> bitlen \<lfloor>a\<rfloor>"
      using bitlen_eq_zero_iff [of "\<lfloor>a\<rfloor>"] bitlen_nonneg [of "\<lfloor>a\<rfloor>"] by linarith
    ultimately show ?thesis
      using True by (simp add: ilog2_def power_int_def)
  next
    case False
    define m where "m = \<lceil>1 / a\<rceil> - 1"
    from False assms have "1 < 1 / a" by simp
    then have pos: "0 < m" unfolding m_def by linarith
    have "1 / a \<le> of_int (m + 1)" unfolding m_def by simp
    also from bitlen_bounds [OF pos] have "m + 1 \<le> 2 ^ nat (bitlen m)" by linarith
    then have "(of_int (m + 1) :: rat) \<le> of_int (2 ^ nat (bitlen m))"
      by (simp only: of_int_le_iff)
    finally have "1 / a \<le> 2 ^ nat (bitlen m)" by simp
    with assms have "1 / 2 ^ nat (bitlen m) \<le> a"
      by (simp add: field_simps)
    then show ?thesis
      using False two_powi_neg [OF bitlen_nonneg [of m]]
      by (simp add: ilog2_def m_def [symmetric])
  qed
  show "a < 2 powi (ilog2 a + 1)"
  proof (cases "1 \<le> a")
    case True
    then have pos: "0 < \<lfloor>a\<rfloor>" by simp
    from bitlen_bounds [OF pos] have "\<lfloor>a\<rfloor> + 1 \<le> 2 ^ nat (bitlen \<lfloor>a\<rfloor>)" by linarith
    then have "(of_int (\<lfloor>a\<rfloor> + 1) :: rat) \<le> of_int (2 ^ nat (bitlen \<lfloor>a\<rfloor>))"
      by (simp only: of_int_le_iff)
    moreover have "a < of_int (\<lfloor>a\<rfloor> + 1)" by linarith
    ultimately have "a < 2 ^ nat (bitlen \<lfloor>a\<rfloor>)" by simp
    then show ?thesis
      using True bitlen_nonneg [of "\<lfloor>a\<rfloor>"] by (simp add: ilog2_def power_int_def)
  next
    case False
    define m where "m = \<lceil>1 / a\<rceil> - 1"
    from False assms have "1 < 1 / a" by simp
    then have pos: "0 < m" unfolding m_def by linarith
    then have k1: "1 \<le> bitlen m"
      using bitlen_eq_zero_iff [of m] bitlen_nonneg [of m] by linarith
    have "of_int m < 1 / a" unfolding m_def by linarith
    moreover from bitlen_bounds [OF pos] have "2 ^ nat (bitlen m - 1) \<le> m" ..
    then have "(2 :: rat) ^ nat (bitlen m - 1) \<le> of_int m"
      by (rule pow2_le_of_int)
    ultimately have "2 ^ nat (bitlen m - 1) < 1 / a" by linarith
    with assms have "a < 1 / 2 ^ nat (bitlen m - 1)"
      by (simp add: field_simps)
    moreover have "2 powi (- bitlen m + 1) = (1 :: rat) / 2 ^ nat (bitlen m - 1)"
      using k1 two_powi_neg [of "bitlen m - 1"] by simp
    ultimately show ?thesis
      using False by (simp add: ilog2_def m_def [symmetric])
  qed
qed

lemma two_powi_pos: "0 < (2 :: rat) powi k"
  by (simp add: zero_less_power_int)

lemma two_powi_add: "(2 :: rat) powi (j + k) = 2 powi j * 2 powi k"
  by (simp add: power_int_add)

lemma ilog2_mono:
  assumes "0 < a" "a \<le> b"
  shows "ilog2 a \<le> ilog2 b"
proof (rule ccontr)
  assume "\<not> ilog2 a \<le> ilog2 b"
  then have "ilog2 b + 1 \<le> ilog2 a" by simp
  then have "(2 :: rat) powi (ilog2 b + 1) \<le> 2 powi ilog2 a"
    by (intro power_int_increasing) simp_all
  moreover have "2 powi ilog2 a \<le> a"
    using assms by (intro ilog2_bounds) simp
  moreover have "b < 2 powi (ilog2 b + 1)"
    using assms by (intro ilog2_bounds) simp
  ultimately show False using assms by linarith
qed

lemma round_mag_le:
  assumes "a \<le> of_int k * 2 powi ulp_exp a"
  shows "round_mag a \<le> of_int k * 2 powi ulp_exp a"
proof -
  from assms have "a / 2 powi ulp_exp a \<le> of_int k"
    using two_powi_pos [of "ulp_exp a"] by (simp add: field_simps)
  then have "round_half_even (a / 2 powi ulp_exp a) \<le> k"
    by (rule rhe_le_int)
  then have "(of_int (round_half_even (a / 2 powi ulp_exp a)) :: rat) \<le> of_int k"
    by (simp only: of_int_le_iff)
  then show ?thesis
    unfolding round_mag_def using two_powi_pos [of "ulp_exp a"]
    by (intro mult_right_mono) simp_all
qed

lemma round_mag_ge:
  assumes "of_int k * 2 powi ulp_exp a \<le> a"
  shows "of_int k * 2 powi ulp_exp a \<le> round_mag a"
proof -
  from assms have "of_int k \<le> a / 2 powi ulp_exp a"
    using two_powi_pos [of "ulp_exp a"] by (simp add: field_simps)
  then have "k \<le> round_half_even (a / 2 powi ulp_exp a)"
    by (rule rhe_ge_int)
  then have "(of_int k :: rat) \<le> of_int (round_half_even (a / 2 powi ulp_exp a))"
    by (simp only: of_int_le_iff)
  then show ?thesis
    unfolding round_mag_def using two_powi_pos [of "ulp_exp a"]
    by (intro mult_right_mono) simp_all
qed

lemma round_mag_nonneg: "0 \<le> a \<Longrightarrow> 0 \<le> round_mag a"
  using round_mag_ge [of 0 a] by simp

lemma round_mag_zero: "round_mag 0 = 0"
  by (simp add: round_mag_def round_half_even_def)

lemma round_mag_upper:
  assumes "0 < a"
  shows "round_mag a \<le> 2 powi (ulp_exp a + 53)"
proof -
  have "a < 2 powi (ilog2 a + 1)"
    using assms by (rule ilog2_bounds)
  also have "(2 :: rat) powi (ilog2 a + 1) \<le> 2 powi (ulp_exp a + 53)"
    by (intro power_int_increasing) (simp_all add: ulp_exp_def)
  also have "(2 :: rat) powi (ulp_exp a + 53) = of_int (2 ^ 53) * 2 powi ulp_exp a"
    by (simp add: power_int_add)
  finally have "a \<le> of_int (2 ^ 53) * 2 powi ulp_exp a" by simp
  then have "round_mag a \<le> of_int (2 ^ 53) * 2 powi ulp_exp a"
    by (rule round_mag_le)
  then show ?thesis
    by (simp add: power_int_add)
qed

lemma round_mag_lower:
  assumes "0 < a" and "ulp_exp a = ilog2 a - 52"
  shows "2 powi ilog2 a \<le> round_mag a"
proof -
  have "(2 :: rat) powi ilog2 a = 2 powi (ulp_exp a + 52)"
    using assms by simp
  also have "\<dots> = of_int (2 ^ 52) * 2 powi ulp_exp a"
    by (simp add: power_int_add)
  finally have eq: "(2 :: rat) powi ilog2 a = of_int (2 ^ 52) * 2 powi ulp_exp a" .
  have "2 powi ilog2 a \<le> a"
    using assms(1) by (rule ilog2_bounds)
  then have "of_int (2 ^ 52) * 2 powi ulp_exp a \<le> a"
    by (simp only: eq)
  then have "of_int (2 ^ 52) * 2 powi ulp_exp a \<le> round_mag a"
    by (rule round_mag_ge)
  then show ?thesis by (simp only: eq)
qed

lemma round_mag_mono:
  assumes "0 \<le> a" "a \<le> b"
  shows "round_mag a \<le> round_mag b"
proof (cases "a = 0")
  case True
  then show ?thesis
    using assms round_mag_nonneg [of b] by (simp add: round_mag_zero)
next
  case False
  with assms have pos: "0 < a" "0 < b" by simp_all
  have le: "ulp_exp a \<le> ulp_exp b"
    using ilog2_mono [OF pos(1) assms(2)] by (simp add: ulp_exp_def)
  show ?thesis
  proof (cases "ulp_exp a = ulp_exp b")
    case True
    have "a / 2 powi ulp_exp b \<le> b / 2 powi ulp_exp b"
      using assms two_powi_pos [of "ulp_exp b"] by (simp add: divide_right_mono)
    then have "round_half_even (a / 2 powi ulp_exp b) \<le> round_half_even (b / 2 powi ulp_exp b)"
      by (rule rhe_mono)
    then have "(of_int (round_half_even (a / 2 powi ulp_exp b)) :: rat)
        \<le> of_int (round_half_even (b / 2 powi ulp_exp b))"
      by (simp only: of_int_le_iff)
    then show ?thesis
      unfolding round_mag_def True using two_powi_pos [of "ulp_exp b"]
      by (intro mult_right_mono) simp_all
  next
    case False
    with le have lt: "ulp_exp a < ulp_exp b" by simp
    have "- 1074 \<le> ulp_exp a" by (simp add: ulp_exp_def)
    with lt have nb: "ulp_exp b = ilog2 b - 52"
      by (simp add: ulp_exp_def max_def split: if_splits)
    have "round_mag a \<le> 2 powi (ulp_exp a + 53)"
      using pos(1) by (rule round_mag_upper)
    also have "(2 :: rat) powi (ulp_exp a + 53) \<le> 2 powi ilog2 b"
      using lt nb by (intro power_int_increasing) simp_all
    also have "\<dots> \<le> round_mag b"
      using pos(2) nb by (rule round_mag_lower)
    finally show ?thesis .
  qed
qed

lemma round_to_double_mono:
  assumes "x \<le> y"
  shows "round_to_double x \<le> round_to_double y"
proof -
  consider "0 \<le> x" | "x < 0" "y < 0" | "x < 0" "0 \<le> y" by linarith
  then show ?thesis
  proof cases
    case 1
    with assms show ?thesis
      by (simp add: round_to_double_def round_mag_mono)
  next
    case 2
    with assms have "round_mag (- y) \<le> round_mag (- x)"
      by (intro round_mag_mono) simp_all
    with 2 show ?thesis
      by (simp add: round_to_double_def)
  next
    case 3
    then have "0 \<le> round_mag (- x)" "0 \<le> round_mag y"
      by (simp_all add: round_mag_nonneg)
    with 3 show ?thesis
      by (simp add: round_to_double_def)
  qed
qed

lemma round_to_double_zero: "round_to_double 0 = 0"
  by (simp add: round_to_double_def round_mag_zero)

lemma round_to_double_nonneg: "0 \<le> x \<Longrightarrow> 0 \<le> round_to_double x"
  using round_to_double_mono [of 0 x] by (simp add: round_to_double_zero)

lemma fl_zero: "fl 0 = Finite 0"
  by (simp add: fl_def round_to_double_zero)

lemma fl_FiniteD: "fl x = Finite r \<Longrightarrow> r = round_to_double x"
  by (simp add: fl_def Let_def split: if_splits)

lemma fl_mono:
  assumes "fl x = Finite a" "fl y = Finite b" "x \<le> y"
  shows "a \<le> b"
proof -
  from assms have "a = round_to_double x" "b = round_to_double y"
    by (auto dest: fl_FiniteD)
  with assms(3) show ?thesis
    by (simp add: round_to_double_mono)
qed

lemma fl_nonneg:
  assumes "fl x = Finite a" "0 \<le> x"
  shows "0 \<le> a"
proof -
  from assms have "a = round_to_double x"
    by (auto dest: fl_FiniteD)
  with assms(2) show ?thesis
    by (simp add: round_to_double_nonneg)
qed

lemma fl_small_ints: "fl 1 = Finite 1" "fl 10 = Finite 10"
  by code_simp+

lemma fl_bounded:
  assumes "0 \<le> x" "x \<le> y" "fl y = Finite b"
  shows "\<exists>a. fl x = Finite a"
proof (cases "round_to_double x = 0")
  case True
  then show ?thesis by (simp add: fl_def)
next
  case False
  with round_to_double_nonneg [OF assms(1)] have px: "0 < round_to_double x" by simp
  from assms(2) have le: "round_to_double x \<le> round_to_double y"
    by (rule round_to_double_mono)
  with px have py: "0 < round_to_double y" by simp
  from assms(3) py have "\<not> 1024 \<le> ilog2 \<bar>round_to_double y\<bar>"
    by (auto simp add: fl_def Let_def split: if_splits)
  with py have "ilog2 (round_to_double y) < 1024" by simp
  moreover from px le have "ilog2 (round_to_double x) \<le> ilog2 (round_to_double y)"
    by (rule ilog2_mono)
  ultimately have "\<not> 1024 \<le> ilog2 \<bar>round_to_double x\<bar>"
    using px by simp
  then show ?thesis by (simp add: fl_def Let_def)
qed

lemma min_subnormal_pos: "0 < min_subnormal"
  unfolding min_subnormal_def by (rule two_powi_pos)

lemma two_powi_ulp_exp:
  "2 powi ulp_exp a = of_int (2 ^ nat (ulp_exp a + 1074)) * min_subnormal"
proof -
  have "0 \<le> ulp_exp a + 1074" by (simp add: ulp_exp_def)
  then have "(2 :: rat) powi (ulp_exp a + 1074) = of_int (2 ^ nat (ulp_exp a + 1074))"
    by (simp add: power_int_nonneg_exp)
  moreover have "(2 :: rat) powi (ulp_exp a + 1074 + (- 1074)) = 2 powi (ulp_exp a + 1074) * 2 powi (- 1074)"
    by (rule power_int_add) simp
  moreover have "ulp_exp a + 1074 + (- 1074) = ulp_exp a" by simp
  ultimately show ?thesis
    unfolding min_subnormal_def by (simp only:)
qed

lemma round_mag_grid:
  "\<exists>k. round_mag a = of_int k * min_subnormal"
proof -
  have "round_mag a =
      of_int (round_half_even (a / 2 powi ulp_exp a) * 2 ^ nat (ulp_exp a + 1074)) * min_subnormal"
    unfolding round_mag_def by (subst (2) two_powi_ulp_exp) simp
  then show ?thesis ..
qed

lemma round_to_double_grid:
  "\<exists>k. round_to_double x = of_int k * min_subnormal"
proof (cases "x < 0")
  case True
  from round_mag_grid [of "- x"] obtain k where "round_mag (- x) = of_int k * min_subnormal" ..
  with True have "round_to_double x = of_int (- k) * min_subnormal"
    by (simp add: round_to_double_def)
  then show ?thesis ..
next
  case False
  then show ?thesis
    using round_mag_grid [of x] by (simp add: round_to_double_def)
qed

lemma round_mag_pos:
  assumes "min_subnormal \<le> a"
  shows "0 < round_mag a"
proof -
  have pos: "0 < a"
    using assms min_subnormal_pos by linarith
  have "2 powi ulp_exp a \<le> a"
  proof (cases "ulp_exp a = - 1074")
    case True
    with assms show ?thesis by (simp only: min_subnormal_def)
  next
    case False
    then have "ulp_exp a = ilog2 a - 52"
      by (simp add: ulp_exp_def max_def split: if_splits)
    then have "(2 :: rat) powi ulp_exp a \<le> 2 powi ilog2 a"
      by (intro power_int_increasing) simp_all
    also have "\<dots> \<le> a"
      using pos by (rule ilog2_bounds)
    finally show ?thesis .
  qed
  then have "of_int 1 * 2 powi ulp_exp a \<le> a" by simp
  then have "of_int 1 * 2 powi ulp_exp a \<le> round_mag a"
    by (rule round_mag_ge)
  then have "2 powi ulp_exp a \<le> round_mag a" by simp
  with two_powi_pos [of "ulp_exp a"] show ?thesis
    by (rule less_le_trans)
qed

lemma double_diff_nonzero:
  assumes "is_double a" "is_double b" "b < a"
  shows "fl (a - b) \<noteq> Finite 0"
proof -
  from assms(1) have "a = round_to_double a"
    unfolding is_double_def by (rule fl_FiniteD)
  then obtain ka where ka: "a = of_int ka * min_subnormal"
    using round_to_double_grid [of a] by auto
  from assms(2) have "b = round_to_double b"
    unfolding is_double_def by (rule fl_FiniteD)
  then obtain kb where kb: "b = of_int kb * min_subnormal"
    using round_to_double_grid [of b] by auto
  note P = min_subnormal_pos
  from assms(3) ka kb have "(of_int kb :: rat) * min_subnormal < of_int ka * min_subnormal"
    by simp
  with P have "(of_int kb :: rat) < of_int ka"
    by (simp only: mult_less_cancel_right_pos)
  then have "kb + 1 \<le> ka" by simp
  then have "(of_int (kb + 1) :: rat) \<le> of_int ka"
    by (simp only: of_int_le_iff)
  then have "(of_int (kb + 1) :: rat) * min_subnormal \<le> of_int ka * min_subnormal"
    using P by (simp only: mult_le_cancel_right_pos)
  then have "min_subnormal \<le> a - b"
    unfolding ka kb by (simp add: algebra_simps)
  then have "0 < round_mag (a - b)"
    by (rule round_mag_pos)
  with assms(3) have "0 < round_to_double (a - b)"
    by (simp add: round_to_double_def)
  then show ?thesis
    by (auto dest: fl_FiniteD)
qed

section \<open>Properties of the float operations\<close>

lemma flt_irrefl: "\<not> flt a a"
  by (cases a) simp_all

lemma flt_asym: "flt a b \<Longrightarrow> \<not> flt b a"
  by (cases a; cases b) simp_all

lemma flt_not_NaN: "flt a b \<Longrightarrow> a \<noteq> NaN \<and> b \<noteq> NaN"
  by (cases a; cases b) simp_all

lemma not_flt_trans:
  assumes "a \<noteq> NaN" "b \<noteq> NaN" "c \<noteq> NaN" "\<not> flt b a" "\<not> flt c b"
  shows "\<not> flt c a"
  using assms by (cases a; cases b; cases c) simp_all

lemma fsub_FiniteD:
  assumes "fsub v lo = Finite x"
  shows "\<exists>a l. v = Finite a \<and> lo = Finite l \<and> fl (a - l) = Finite x"
  using assms by (cases v; cases lo) simp_all

lemma fdiv_FiniteD:
  assumes "fdiv a r = Inr (Finite q)"
  shows "(\<exists>x y. a = Finite x \<and> r = Finite y \<and> y \<noteq> 0 \<and> fl (x / y) = Finite q)
       \<or> (\<exists>x. a = Finite x \<and> (r = PInf \<or> r = NInf) \<and> q = 0)"
  using assms by (cases a; cases r) (simp_all split: if_splits)

lemma band_of_InrD:
  assumes "band_of v lo rng = Inr b"
  shows "\<exists>q p. fdiv (fsub v lo) rng = Inr (Finite q) \<and> fl (10 * q) = Finite p
           \<and> b = min 10 (1 + \<lfloor>p\<rfloor>)"
proof -
  from assms obtain q' n where q': "fdiv (fsub v lo) rng = Inr q'"
    and n: "py_floor (fmul (Finite 10) q') = Inr n"
    and b: "b = min 10 (1 + n)"
    by (auto simp add: band_of_def split: sum.splits)
  from n obtain q where q: "q' = Finite q"
    by (cases q') simp_all
  from n q obtain p where p: "fl (10 * q) = Finite p"
    by (cases "fl (10 * q)") simp_all
  from n q p b have "b = min 10 (1 + \<lfloor>p\<rfloor>)"
    by auto
  with q' q p show ?thesis by blast
qed

lemma band_of_le_10: "band_of v lo rng = Inr b \<Longrightarrow> b \<le> 10"
  by (auto dest: band_of_InrD)

lemma band_tail_ge_1:
  assumes "0 \<le> q" "fl (10 * q) = Finite p"
  shows "1 \<le> min 10 (1 + \<lfloor>p\<rfloor>)"
proof -
  from assms(1) have "0 \<le> 10 * q" by simp
  with assms(2) have "0 \<le> p" by (rule fl_nonneg)
  then have "0 \<le> \<lfloor>p\<rfloor>" by simp
  then show ?thesis by simp
qed

lemma band_tail_mono:
  assumes "qa \<le> qb" "fl (10 * qa) = Finite pa" "fl (10 * qb) = Finite pb"
  shows "min 10 (1 + \<lfloor>pa\<rfloor>) \<le> min 10 (1 + \<lfloor>pb\<rfloor>)"
proof -
  from assms(1) have "10 * qa \<le> 10 * qb" by simp
  with assms(2,3) have "pa \<le> pb" by (rule fl_mono)
  then have "\<lfloor>pa\<rfloor> \<le> \<lfloor>pb\<rfloor>" by (rule floor_mono)
  then show ?thesis by simp
qed

lemma range_nonneg:
  assumes "fsub hi lo = Finite y" "\<not> flt hi lo"
  shows "0 \<le> y"
proof -
  from assms(1) obtain h l where hl: "hi = Finite h" "lo = Finite l" and y: "fl (h - l) = Finite y"
    by (auto dest: fsub_FiniteD)
  from assms(2) hl have "0 \<le> h - l" by simp
  with y show ?thesis by (rule fl_nonneg)
qed

lemma band_of_ge_1:
  assumes "band_of v lo (fsub hi lo) = Inr b" "\<not> flt v lo" "\<not> flt hi lo"
  shows "1 \<le> b"
proof -
  from band_of_InrD [OF assms(1)] obtain q p
    where q: "fdiv (fsub v lo) (fsub hi lo) = Inr (Finite q)"
      and p: "fl (10 * q) = Finite p" and b: "b = min 10 (1 + \<lfloor>p\<rfloor>)"
    by blast
  have "0 \<le> q"
    using fdiv_FiniteD [OF q]
  proof (elim disjE exE conjE)
    fix x y
    assume x: "fsub v lo = Finite x" and y: "fsub hi lo = Finite y" and "y \<noteq> 0"
      and xy: "fl (x / y) = Finite q"
    from y assms(3) have "0 \<le> y" by (rule range_nonneg)
    moreover from x assms(2) have "0 \<le> x" by (rule range_nonneg)
    ultimately have "0 \<le> x / y" by simp
    with xy show ?thesis by (rule fl_nonneg)
  qed simp_all
  then show ?thesis
    unfolding b using p by (rule band_tail_ge_1)
qed

lemma band_of_mono:
  assumes "band_of va lo (fsub hi lo) = Inr ba" "band_of vb lo (fsub hi lo) = Inr bb"
    and "flt va vb" "\<not> flt hi lo"
  shows "ba \<le> bb"
proof -
  from band_of_InrD [OF assms(1)] obtain qa pa
    where qa: "fdiv (fsub va lo) (fsub hi lo) = Inr (Finite qa)"
      and pa: "fl (10 * qa) = Finite pa" and ba: "ba = min 10 (1 + \<lfloor>pa\<rfloor>)"
    by blast
  from band_of_InrD [OF assms(2)] obtain qb pb
    where qb: "fdiv (fsub vb lo) (fsub hi lo) = Inr (Finite qb)"
      and pb: "fl (10 * qb) = Finite pb" and bb: "bb = min 10 (1 + \<lfloor>pb\<rfloor>)"
    by blast
  from fdiv_FiniteD [OF qa] consider (finite) x y
      where "fsub va lo = Finite x" "fsub hi lo = Finite y" "y \<noteq> 0" "fl (x / y) = Finite qa"
    | (infinite) "fsub hi lo = PInf \<or> fsub hi lo = NInf" "qa = 0"
    by blast
  then have "qa \<le> qb"
  proof cases
    case finite
    from finite(2) assms(4) have "0 \<le> y" by (rule range_nonneg)
    from fdiv_FiniteD [OF qb] finite(2) obtain x' where x': "fsub vb lo = Finite x'"
      and x'y: "fl (x' / y) = Finite qb"
      by auto
    from finite(1) obtain a l where a: "va = Finite a" "lo = Finite l" "fl (a - l) = Finite x"
      by (auto dest: fsub_FiniteD)
    from x' a(2) obtain b where b: "vb = Finite b" "fl (b - l) = Finite x'"
      by (auto dest: fsub_FiniteD)
    from assms(3) a(1) b(1) have "a - l \<le> b - l" by simp
    with a(3) b(2) have "x \<le> x'" by (rule fl_mono)
    with \<open>0 \<le> y\<close> have "x / y \<le> x' / y" by (simp add: divide_right_mono)
    with finite(4) x'y show ?thesis by (rule fl_mono)
  next
    case infinite
    with fdiv_FiniteD [OF qb] have "qb = 0"
      by auto
    with infinite show ?thesis by simp
  qed
  then show ?thesis
    unfolding ba bb using pa pb by (rule band_tail_mono)
qed

lemma band_of_min:
  assumes "band_of lo lo rng = Inr b"
  shows "b = 1"
proof -
  from band_of_InrD [OF assms] obtain q p
    where q: "fdiv (fsub lo lo) rng = Inr (Finite q)"
      and p: "fl (10 * q) = Finite p" and b: "b = min 10 (1 + \<lfloor>p\<rfloor>)"
    by blast
  from fdiv_FiniteD [OF q] obtain x where "fsub lo lo = Finite x"
    by auto
  then obtain l where "lo = Finite l"
    by (auto dest: fsub_FiniteD)
  then have "fsub lo lo = Finite 0"
    by (simp add: fl_zero)
  with fdiv_FiniteD [OF q] have "q = 0"
    by (auto simp add: fl_zero)
  with p have "p = 0" by (simp add: fl_zero)
  with b show ?thesis by simp
qed

lemma band_of_max:
  assumes "band_of hi lo (fsub hi lo) = Inr b"
  shows "b = 10"
proof -
  from band_of_InrD [OF assms] obtain q p
    where q: "fdiv (fsub hi lo) (fsub hi lo) = Inr (Finite q)"
      and p: "fl (10 * q) = Finite p" and b: "b = min 10 (1 + \<lfloor>p\<rfloor>)"
    by blast
  from fdiv_FiniteD [OF q] have "q = 1"
    by (auto simp add: fl_small_ints)
  with p have "p = 10" by (simp add: fl_small_ints)
  with b show ?thesis by simp
qed


lemma flt_antisym_eq:
  assumes "a \<noteq> NaN" "b \<noteq> NaN" "\<not> flt a b" "\<not> flt b a"
  shows "a = b"
  using assms by (cases a; cases b) simp_all

lemma band_of_finite:
  assumes "band_of v lo rng = Inr b"
  shows "v \<noteq> NaN" and "lo \<noteq> NaN" and "rng \<noteq> NaN"
proof -
  from band_of_InrD [OF assms] obtain q where q: "fdiv (fsub v lo) rng = Inr (Finite q)"
    by blast
  from fdiv_FiniteD [OF q] obtain x where x: "fsub v lo = Finite x" and r: "rng \<noteq> NaN"
    by auto
  from fsub_FiniteD [OF x] show "v \<noteq> NaN" and "lo \<noteq> NaN"
    by auto
  from r show "rng \<noteq> NaN" .
qed

lemma fsub_not_NaN: "fsub hi lo \<noteq> NaN \<Longrightarrow> hi \<noteq> NaN"
  by (cases hi; cases lo) simp_all

lemma band_of_total:
  assumes d: "is_double l" "is_double a" "is_double h"
    and o: "0 \<le> l" "l \<le> a" "a \<le> h" "l < h"
  shows "\<exists>b. band_of (Finite a) (Finite l) (fsub (Finite h) (Finite l)) = Inr b"
proof -
  from d(3) have fh: "fl h = Finite h" by (simp add: is_double_def)
  from o have "0 \<le> h - l" "h - l \<le> h" by simp_all
  from fl_bounded [OF this fh] obtain r where r: "fl (h - l) = Finite r" by blast
  from double_diff_nonzero [OF d(3) d(1) o(4)] r have r0: "r \<noteq> 0" by simp
  from r \<open>0 \<le> h - l\<close> have "0 \<le> r" by (rule fl_nonneg)
  with r0 have rpos: "0 < r" by simp
  from o have al: "0 \<le> a - l" "a - l \<le> h - l" by simp_all
  from fl_bounded [OF this r] obtain x where x: "fl (a - l) = Finite x" by blast
  from x al(1) have x0: "0 \<le> x" by (rule fl_nonneg)
  from x r al(2) have xr: "x \<le> r" by (rule fl_mono)
  from x0 xr rpos have q01: "0 \<le> x / r" "x / r \<le> 1" by simp_all
  from fl_bounded [OF this fl_small_ints(1)] obtain q where q: "fl (x / r) = Finite q" by blast
  from q q01(1) have q0: "0 \<le> q" by (rule fl_nonneg)
  from q fl_small_ints(1) q01(2) have q1: "q \<le> 1" by (rule fl_mono)
  from q0 q1 have "0 \<le> 10 * q" "10 * q \<le> 10" by simp_all
  from fl_bounded [OF this fl_small_ints(2)] obtain p where p: "fl (10 * q) = Finite p" by blast
  from r x q p r0 show ?thesis
    by (simp add: band_of_def)
qed

section \<open>Properties of \<^verbatim>\<open>min\<close>, \<^verbatim>\<open>max\<close> and \<^verbatim>\<open>find_extremes\<close>\<close>

lemma flt_NaN_right: "\<not> flt x NaN"
  by (cases x) simp_all

lemma py_min_from_NaN: "py_min_from NaN xs = NaN"
  by (induction xs) (simp_all add: flt_NaN_right)

lemma py_max_from_NaN: "py_max_from NaN xs = NaN"
  by (induction xs) simp_all

lemma py_min_from_mem: "py_min_from cur xs \<in> set (cur # xs)"
  by (induction xs arbitrary: cur) (simp, fastforce)

lemma py_max_from_mem: "py_max_from cur xs \<in> set (cur # xs)"
  by (induction xs arbitrary: cur) (simp, fastforce)

lemma py_min_from_lower:
  assumes "cur \<noteq> NaN"
  shows "py_min_from cur xs \<noteq> NaN \<and> \<not> flt cur (py_min_from cur xs)
       \<and> (\<forall>v\<in>set xs. \<not> flt v (py_min_from cur xs))"
  using assms
proof (induction xs arbitrary: cur)
  case Nil
  then show ?case by (simp add: flt_irrefl)
next
  case (Cons x xs)
  define cur' where "cur' = (if flt x cur then x else cur)"
  define m where "m = py_min_from cur' xs"
  have c': "cur' \<noteq> NaN"
    using Cons.prems by (auto simp add: cur'_def dest: flt_not_NaN)
  from Cons.IH [OF c'] have m: "m \<noteq> NaN" "\<not> flt cur' m" "\<forall>v\<in>set xs. \<not> flt v m"
    by (simp_all add: m_def)
  have "\<not> flt cur cur'"
    by (auto simp add: cur'_def flt_irrefl dest: flt_asym)
  with m(1) c' Cons.prems m(2) have 1: "\<not> flt cur m"
    by (rule not_flt_trans)
  have 2: "\<not> flt x m"
  proof (cases "x = NaN")
    case True
    then show ?thesis by simp
  next
    case False
    have "\<not> flt x cur'"
      by (simp add: cur'_def flt_irrefl)
    with m(1) c' False m(2) show ?thesis
      by (rule not_flt_trans)
  qed
  have "py_min_from cur (x # xs) = m"
    by (simp add: m_def cur'_def)
  with m 1 2 show ?case by simp
qed

lemma py_max_from_upper:
  assumes "cur \<noteq> NaN"
  shows "py_max_from cur xs \<noteq> NaN \<and> \<not> flt (py_max_from cur xs) cur
       \<and> (\<forall>v\<in>set xs. \<not> flt (py_max_from cur xs) v)"
  using assms
proof (induction xs arbitrary: cur)
  case Nil
  then show ?case by (simp add: flt_irrefl)
next
  case (Cons x xs)
  define cur' where "cur' = (if flt cur x then x else cur)"
  define m where "m = py_max_from cur' xs"
  have c': "cur' \<noteq> NaN"
    using Cons.prems by (auto simp add: cur'_def dest: flt_not_NaN)
  from Cons.IH [OF c'] have m: "m \<noteq> NaN" "\<not> flt m cur'" "\<forall>v\<in>set xs. \<not> flt m v"
    by (simp_all add: m_def)
  have "\<not> flt cur' cur"
    by (auto simp add: cur'_def flt_irrefl dest: flt_asym)
  with Cons.prems c' m(1) have 1: "\<not> flt m cur"
    using m(2) by (rule not_flt_trans)
  have 2: "\<not> flt m x"
  proof (cases "x = NaN")
    case True
    then show ?thesis by (simp add: flt_NaN_right)
  next
    case False
    have "\<not> flt cur' x"
      by (simp add: cur'_def flt_irrefl)
    with False c' m(1) show ?thesis
      using m(2) by (rule not_flt_trans)
  qed
  have "py_max_from cur (x # xs) = m"
    by (simp add: m_def cur'_def)
  with m 1 2 show ?case by simp
qed

lemma py_min_from_least: "v \<in> set (x # xs) \<Longrightarrow> \<not> flt v (py_min_from x xs)"
  using py_min_from_lower [of x xs]
  by (cases "x = NaN") (auto simp add: py_min_from_NaN flt_NaN_right)

lemma py_max_from_greatest: "v \<in> set (x # xs) \<Longrightarrow> \<not> flt (py_max_from x xs) v"
  using py_max_from_upper [of x xs]
  by (cases "x = NaN") (auto simp add: py_max_from_NaN)

lemma find_extremes_InrD:
  assumes "find_extremes d = Inr (lo, hi)"
  shows "d \<noteq> []" and "lo \<in> snd ` set d" and "hi \<in> snd ` set d"
    and "\<And>v. v \<in> snd ` set d \<Longrightarrow> \<not> flt v lo \<and> \<not> flt hi v"
proof -
  from assms show ne: "d \<noteq> []"
    by (auto simp add: find_extremes_def py_min_def)
  then obtain x xs where xs: "map snd d = x # xs"
    by (cases d) auto
  with assms have lo: "lo = py_min_from x xs" and hi: "hi = py_max_from x xs"
    by (simp_all add: find_extremes_def py_min_def py_max_def)
  have set: "snd ` set d = set (x # xs)"
    using xs by (metis set_map)
  show "lo \<in> snd ` set d" "hi \<in> snd ` set d"
    unfolding set lo hi by (rule py_min_from_mem, rule py_max_from_mem)
  show "\<not> flt v lo \<and> \<not> flt hi v" if "v \<in> snd ` set d" for v
    using that unfolding set lo hi
    by (simp only: py_min_from_least py_max_from_greatest simp_thms)
qed

lemma find_extremes_nonempty:
  assumes "d \<noteq> []"
  shows "\<exists>lo hi. find_extremes d = Inr (lo, hi)"
  using assms by (cases d) (simp_all add: find_extremes_def py_min_def py_max_def)

lemma find_extremes_constant:
  assumes "d \<noteq> []" and "\<And>v. v \<in> snd ` set d \<Longrightarrow> v = c"
  shows "find_extremes d = Inr (c, c)"
proof -
  from find_extremes_nonempty [OF assms(1)] obtain lo hi
    where e: "find_extremes d = Inr (lo, hi)" by blast
  from find_extremes_InrD(2) [OF e] have "lo = c" by (rule assms(2))
  moreover from find_extremes_InrD(3) [OF e] have "hi = c" by (rule assms(2))
  ultimately show ?thesis using e by simp
qed


section \<open>Properties of the loops of \<^verbatim>\<open>group_by_attributes\<close>\<close>

lemma set_update_subset: "set (AList.update k v al) \<subseteq> insert (k, v) (set al)"
  by (induction al) auto

lemma map_of_eq_None_keys: "map_of al n = None \<longleftrightarrow> n \<notin> fst ` set al"
  by (simp add: map_of_eq_None_iff)

lemma measure_fonts_keys:
  assumes "measure_fonts cdw fonts dk wd = Inr (darkness, width)"
  shows "fst ` set darkness = fst ` set dk \<union> fst ` set fonts
       \<and> fst ` set width = fst ` set wd \<union> fst ` set fonts"
  using assms
proof (induction fonts arbitrary: dk wd)
  case Nil
  then show ?case by simp
next
  case (Cons f fonts)
  obtain name subs where f: "f = (name, subs)" by (cases f)
  from Cons.prems f obtain d w where "cdw name subs = Inr (d, w)"
    and "measure_fonts cdw fonts (AList.update name d dk) (AList.update name w wd) = Inr (darkness, width)"
    by (auto split: sum.splits)
  from Cons.IH [OF this(2)] f show ?case
    by (auto simp add: AList.dom_update)
qed

lemma measure_fonts_values:
  assumes "measure_fonts cdw fonts dk wd = Inr (darkness, width)"
  shows "(\<forall>(n, d)\<in>set darkness. (n, d) \<in> set dk \<or> (\<exists>s w. (n, s) \<in> set fonts \<and> cdw n s = Inr (d, w)))
       \<and> (\<forall>(n, w)\<in>set width. (n, w) \<in> set wd \<or> (\<exists>s d. (n, s) \<in> set fonts \<and> cdw n s = Inr (d, w)))"
  using assms
proof (induction fonts arbitrary: dk wd)
  case Nil
  then show ?case by auto
next
  case (Cons f fonts)
  obtain name subs where f: "f = (name, subs)" by (cases f)
  from Cons.prems f obtain d w where m: "cdw name subs = Inr (d, w)"
    and "measure_fonts cdw fonts (AList.update name d dk) (AList.update name w wd) = Inr (darkness, width)"
    by (auto split: sum.splits)
  from Cons.IH [OF this(2)]
  have d: "\<And>n x. (n, x) \<in> set darkness \<Longrightarrow>
        (n, x) \<in> set (AList.update name d dk) \<or> (\<exists>s w. (n, s) \<in> set fonts \<and> cdw n s = Inr (x, w))"
    and w: "\<And>n x. (n, x) \<in> set width \<Longrightarrow>
        (n, x) \<in> set (AList.update name w wd) \<or> (\<exists>s d. (n, s) \<in> set fonts \<and> cdw n s = Inr (d, x))"
    by blast+
  show ?case
  proof (intro conjI ballI, goal_cases)
    case (1 p)
    obtain n x where p: "p = (n, x)" by (cases p)
    from d [of n x] 1 p set_update_subset [of name d dk] m f show ?case
      by auto
  next
    case (2 p)
    obtain n x where p: "p = (n, x)" by (cases p)
    from w [of n x] 2 p set_update_subset [of name w wd] m f show ?case
      by auto
  qed
qed

lemma assign_bands_set:
  assumes "assign_bands raw lo rng fonts acc = Inr bands" and "(n, b) \<in> set bands"
  shows "(n, b) \<in> set acc \<or> (\<exists>v. map_of raw n = Some v \<and> band_of v lo rng = Inr b)"
  using assms
proof (induction fonts arbitrary: acc)
  case Nil
  then show ?case by simp
next
  case (Cons f fonts)
  obtain name subs where f: "f = (name, subs)" by (cases f)
  from Cons.prems(1) f obtain v0 b0 where v0: "map_of raw name = Some v0"
    and b0: "band_of v0 lo rng = Inr b0"
    and rest: "assign_bands raw lo rng fonts (AList.update name b0 acc) = Inr bands"
    by (auto split: option.splits sum.splits)
  from Cons.IH [OF rest Cons.prems(2)] set_update_subset [of name b0 acc] v0 b0
  show ?case by auto
qed

lemma assign_bands_map_of:
  assumes "assign_bands raw lo rng fonts acc = Inr bands"
  shows "n \<in> fst ` set fonts \<Longrightarrow>
           \<exists>v b. map_of raw n = Some v \<and> band_of v lo rng = Inr b \<and> map_of bands n = Some b"
    and "n \<notin> fst ` set fonts \<Longrightarrow> map_of bands n = map_of acc n"
  using assms
proof (induction fonts arbitrary: acc)
  case Nil
  { case 1 then show ?case by simp }
  { case 2 then show ?case by simp }
next
  case (Cons f fonts)
  obtain name subs where f: "f = (name, subs)" by (cases f)
  { case 1
    from 1(2) f obtain v0 b0 where v0: "map_of raw name = Some v0"
      and b0: "band_of v0 lo rng = Inr b0"
      and rest: "assign_bands raw lo rng fonts (AList.update name b0 acc) = Inr bands"
      by (auto split: option.splits sum.splits)
    show ?case
    proof (cases "n \<in> fst ` set fonts")
      case True
      then show ?thesis using rest by (rule Cons.IH(1))
    next
      case False
      with 1(1) f have "n = name" by auto
      moreover from False rest have "map_of bands n = map_of (AList.update name b0 acc) n"
        by (rule Cons.IH(2))
      ultimately show ?thesis
        using v0 b0 by (simp add: AList.update_conv')
    qed }
  { case 2
    from 2(2) f obtain v0 b0 where
      rest: "assign_bands raw lo rng fonts (AList.update name b0 acc) = Inr bands"
      by (auto split: option.splits sum.splits)
    from 2(1) f have "n \<noteq> name" "n \<notin> fst ` set fonts" by auto
    from this(2) rest have "map_of bands n = map_of (AList.update name b0 acc) n"
      by (rule Cons.IH(2))
    with \<open>n \<noteq> name\<close> show ?case
      by (simp add: AList.update_conv') }
qed

lemma midpoint_bands_set:
  "(n, b) \<in> set (midpoint_bands fonts acc) \<Longrightarrow> (n, b) \<in> set acc \<or> b = 5"
proof (induction fonts arbitrary: acc)
  case Nil
  then show ?case by simp
next
  case (Cons f fonts)
  obtain name subs where f: "f = (name, subs)" by (cases f)
  from Cons.prems f have "(n, b) \<in> set (midpoint_bands fonts (AList.update name 5 acc))"
    by simp
  from Cons.IH [OF this] set_update_subset [of name 5 acc] show ?case
    by auto
qed

lemma midpoint_bands_map_of:
  "map_of (midpoint_bands fonts acc) n = (if n \<in> fst ` set fonts then Some 5 else map_of acc n)"
proof (induction fonts arbitrary: acc)
  case Nil
  then show ?case by simp
next
  case (Cons f fonts)
  obtain name subs where f: "f = (name, subs)" by (cases f)
  from Cons.IH [of "AList.update name 5 acc"] f show ?case
    by (auto simp add: AList.update_conv')
qed

lemma group_by_attributes_InrD:
  assumes "group_by_attributes cdw fonts = Inr (weights, widths)"
  shows "\<exists>darkness width. measure_fonts cdw fonts [] [] = Inr (darkness, width)
           \<and> normalize darkness fonts = Inr weights \<and> normalize width fonts = Inr widths"
  using assms by (auto simp add: group_by_attributes_def split: sum.splits)


section \<open>Properties of the normalisation\<close>

lemma normalize_InrD:
  assumes "normalize raw fonts = Inr bands"
  shows "\<exists>lo hi. find_extremes raw = Inr (lo, hi)
           \<and> (if feq (fsub hi lo) (Finite 0) then bands = midpoint_bands fonts []
                else assign_bands raw lo (fsub hi lo) fonts [] = Inr bands)"
proof (cases "find_extremes raw")
  case (Inl e)
  with assms show ?thesis by (simp add: normalize_def)
next
  case (Inr p)
  obtain lo hi where "p = (lo, hi)" by (cases p)
  with Inr assms show ?thesis
    by (auto simp add: normalize_def Let_def split: if_splits)
qed

lemma map_of_SomeD_snd: "map_of al n = Some v \<Longrightarrow> v \<in> snd ` set al"
  by (auto dest!: map_of_SomeD intro: rev_image_eqI)

lemma normalize_bounds:
  assumes "normalize raw fonts = Inr bands" and "(n, b) \<in> set bands"
  shows "1 \<le> b \<and> b \<le> 10"
proof -
  from assms(1) obtain lo hi where e: "find_extremes raw = Inr (lo, hi)"
    and br: "if feq (fsub hi lo) (Finite 0) then bands = midpoint_bands fonts []
             else assign_bands raw lo (fsub hi lo) fonts [] = Inr bands"
    using normalize_InrD by blast
  from br have deg: "feq (fsub hi lo) (Finite 0) \<Longrightarrow> bands = midpoint_bands fonts []"
    and nondeg: "\<not> feq (fsub hi lo) (Finite 0) \<Longrightarrow> assign_bands raw lo (fsub hi lo) fonts [] = Inr bands"
    by simp_all
  show ?thesis
  proof (cases "feq (fsub hi lo) (Finite 0)")
    case True
    with deg assms(2) have "b = 5"
      by (auto dest: midpoint_bands_set)
    then show ?thesis by simp
  next
    case False
    from assign_bands_set [OF nondeg [OF False] assms(2)] obtain v
      where v: "map_of raw n = Some v" and b: "band_of v lo (fsub hi lo) = Inr b"
      by auto
    from v have "v \<in> snd ` set raw" by (rule map_of_SomeD_snd)
    with find_extremes_InrD(4) [OF e] have "\<not> flt v lo" by blast
    moreover from find_extremes_InrD(2,4) [OF e] have "\<not> flt hi lo" by blast
    ultimately have "1 \<le> b"
      using b by (simp add: band_of_ge_1)
    with band_of_le_10 [OF b] show ?thesis by simp
  qed
qed

lemma normalize_degenerate:
  assumes "raw \<noteq> []" and "\<forall>v\<in>snd ` set raw. v = Finite c"
  shows "normalize raw fonts = Inr (midpoint_bands fonts [])"
proof -
  have "find_extremes raw = Inr (Finite c, Finite c)"
    using assms(1)
  proof (rule find_extremes_constant)
    fix v
    assume "v \<in> snd ` set raw"
    with assms(2) show "v = Finite c" by blast
  qed
  then show ?thesis
    by (simp add: normalize_def feq_def fl_zero)
qed

lemma fsub_nonzero:
  assumes "flt lo hi" "valid_float lo" "valid_float hi"
  shows "\<not> feq (fsub hi lo) (Finite 0)"
  using assms by (cases lo; cases hi) (simp_all add: feq_def double_diff_nonzero)

lemma normalize_extremes:
  assumes n: "normalize raw fonts = Inr bands" and e: "find_extremes raw = Inr (lo, hi)"
    and lt: "flt lo hi" and valid: "\<forall>v\<in>snd ` set raw. valid_float v"
    and v: "map_of raw name = Some v" and name: "name \<in> fst ` set fonts"
  shows "(feq v lo \<longrightarrow> map_of bands name = Some 1) \<and> (feq v hi \<longrightarrow> map_of bands name = Some 10)"
proof -
  from find_extremes_InrD(2,3) [OF e] valid have "valid_float lo" "valid_float hi"
    by blast+
  with lt have nz: "\<not> feq (fsub hi lo) (Finite 0)" by (rule fsub_nonzero)
  from n e nz have a: "assign_bands raw lo (fsub hi lo) fonts [] = Inr bands"
    by (simp add: normalize_def)
  from assign_bands_map_of(1) [OF a name] v obtain b
    where b: "band_of v lo (fsub hi lo) = Inr b" "map_of bands name = Some b"
    by auto
  show ?thesis
  proof (intro conjI impI)
    assume "feq v lo"
    then have "v = lo" by (simp add: feq_def)
    with b(1) have "b = 1" by (simp add: band_of_min)
    with b(2) show "map_of bands name = Some 1" by simp
  next
    assume "feq v hi"
    then have "v = hi" by (simp add: feq_def)
    with b(1) have "b = 10" by (simp add: band_of_max)
    with b(2) show "map_of bands name = Some 10" by simp
  qed
qed

lemma tied_extremes_no_order:
  assumes "feq (fsub hi lo) (Finite 0)" and "valid_float lo" "valid_float hi"
    and "\<not> flt hi lo" "\<not> flt u lo" "\<not> flt hi w"
  shows "\<not> flt u w"
proof -
  from assms(1) have z: "fsub hi lo = Finite 0"
    by (simp add: feq_def)
  from fsub_FiniteD [OF z] obtain a l where al: "hi = Finite a" "lo = Finite l"
    by blast
  from assms(1-3) have "\<not> flt lo hi"
    using fsub_nonzero by blast
  with assms(4) al have "a = l" by simp
  with al assms(5,6) show ?thesis
    by (cases u; cases w) simp_all
qed

lemma normalize_least_greatest:
  assumes n: "normalize raw fonts = Inr bands"
    and valid: "\<forall>v\<in>snd ` set raw. valid_float v"
    and v: "map_of raw name = Some v" and name: "name \<in> fst ` set fonts"
  shows "(\<forall>u\<in>snd ` set raw. \<not> flt u v) \<and> (\<exists>u\<in>snd ` set raw. flt v u) \<longrightarrow> map_of bands name = Some 1"
    and "(\<forall>u\<in>snd ` set raw. \<not> flt v u) \<and> (\<exists>u\<in>snd ` set raw. flt u v) \<longrightarrow> map_of bands name = Some 10"
proof -
  from n obtain lo hi where e: "find_extremes raw = Inr (lo, hi)"
    and br: "if feq (fsub hi lo) (Finite 0) then bands = midpoint_bands fonts []
             else assign_bands raw lo (fsub hi lo) fonts [] = Inr bands"
    using normalize_InrD by blast
  from br have nondeg: "\<not> feq (fsub hi lo) (Finite 0) \<Longrightarrow> assign_bands raw lo (fsub hi lo) fonts [] = Inr bands"
    by simp
  note lo_in = find_extremes_InrD(2) [OF e] and hi_in = find_extremes_InrD(3) [OF e]
  note ext = find_extremes_InrD(4) [OF e]
  from v have v_in: "v \<in> snd ` set raw" by (rule map_of_SomeD_snd)
  from lo_in hi_in valid have vlo: "valid_float lo" and vhi: "valid_float hi"
    by blast+
  from ext [OF lo_in] have hl: "\<not> flt hi lo" by simp
  have general: "\<exists>b. band_of v lo (fsub hi lo) = Inr b \<and> map_of bands name = Some b"
    if "u \<in> snd ` set raw" "w \<in> snd ` set raw" "flt u w" for u w
  proof -
    have "\<not> feq (fsub hi lo) (Finite 0)"
    proof
      assume "feq (fsub hi lo) (Finite 0)"
      then have "\<not> flt u w"
        using vlo vhi hl ext [OF that(1)] ext [OF that(2)]
        by (intro tied_extremes_no_order [of hi lo u w]) simp_all
      with that(3) show False by simp
    qed
    from assign_bands_map_of(1) [OF nondeg [OF this] name] v show ?thesis
      by auto
  qed
  show "(\<forall>u\<in>snd ` set raw. \<not> flt u v) \<and> (\<exists>u\<in>snd ` set raw. flt v u) \<longrightarrow> map_of bands name = Some 1"
  proof (intro impI, elim conjE bexE)
    fix u
    assume least: "\<forall>u\<in>snd ` set raw. \<not> flt u v" and u: "u \<in> snd ` set raw" "flt v u"
    from general [OF v_in u] obtain b
      where b: "band_of v lo (fsub hi lo) = Inr b" "map_of bands name = Some b"
      by blast
    from least lo_in have "\<not> flt lo v" by blast
    moreover from ext [OF v_in] have "\<not> flt v lo" by simp
    ultimately have "v = lo"
      using band_of_finite(1,2) [OF b(1)] by (intro flt_antisym_eq)
    with b(1) have "b = 1" by (simp add: band_of_min)
    with b(2) show "map_of bands name = Some 1" by simp
  qed
  show "(\<forall>u\<in>snd ` set raw. \<not> flt v u) \<and> (\<exists>u\<in>snd ` set raw. flt u v) \<longrightarrow> map_of bands name = Some 10"
  proof (intro impI, elim conjE bexE)
    fix u
    assume greatest: "\<forall>u\<in>snd ` set raw. \<not> flt v u" and u: "u \<in> snd ` set raw" "flt u v"
    from general [OF u(1) v_in u(2)] obtain b
      where b: "band_of v lo (fsub hi lo) = Inr b" "map_of bands name = Some b"
      by blast
    from band_of_finite(3) [OF b(1)] have "hi \<noteq> NaN" by (rule fsub_not_NaN)
    moreover from greatest hi_in have "\<not> flt v hi" by blast
    moreover from ext [OF v_in] have "\<not> flt hi v" by simp
    ultimately have "v = hi"
      using band_of_finite(1) [OF b(1)] by (intro flt_antisym_eq)
    with b(1) have "b = 10" by (simp add: band_of_max)
    with b(2) show "map_of bands name = Some 10" by simp
  qed
qed

lemma normalize_mono:
  assumes n: "normalize raw fonts = Inr bands"
    and a: "map_of raw A = Some a" and b: "map_of raw B = Some b" and lt: "flt a b"
    and A: "A \<in> fst ` set fonts" and B: "B \<in> fst ` set fonts"
  shows "\<exists>wa wb. map_of bands A = Some wa \<and> map_of bands B = Some wb \<and> wa \<le> wb"
proof -
  from n obtain lo hi where e: "find_extremes raw = Inr (lo, hi)"
    and br: "if feq (fsub hi lo) (Finite 0) then bands = midpoint_bands fonts []
             else assign_bands raw lo (fsub hi lo) fonts [] = Inr bands"
    using normalize_InrD by blast
  from br have deg: "feq (fsub hi lo) (Finite 0) \<Longrightarrow> bands = midpoint_bands fonts []"
    and nondeg: "\<not> feq (fsub hi lo) (Finite 0) \<Longrightarrow> assign_bands raw lo (fsub hi lo) fonts [] = Inr bands"
    by simp_all
  show ?thesis
  proof (cases "feq (fsub hi lo) (Finite 0)")
    case True
    with deg A B show ?thesis
      by (simp add: midpoint_bands_map_of)
  next
    case False
    note ab = nondeg [OF False]
    from assign_bands_map_of(1) [OF ab A] a obtain wa
      where wa: "band_of a lo (fsub hi lo) = Inr wa" "map_of bands A = Some wa"
      by auto
    from assign_bands_map_of(1) [OF ab B] b obtain wb
      where wb: "band_of b lo (fsub hi lo) = Inr wb" "map_of bands B = Some wb"
      by auto
    from find_extremes_InrD(2,4) [OF e] have "\<not> flt hi lo" by blast
    with wa(1) wb(1) lt have "wa \<le> wb" by (rule band_of_mono)
    with wa(2) wb(2) show ?thesis by simp
  qed
qed

lemma map_of_in_keys: "map_of al n = Some v \<Longrightarrow> n \<in> fst ` set al"
  by (auto dest!: map_of_SomeD intro: rev_image_eqI)

lemma measured_keys:
  assumes "measure_fonts cdw fonts [] [] = Inr (darkness, width)"
  shows "fst ` set darkness = fst ` set fonts" and "fst ` set width = fst ` set fonts"
  using measure_fonts_keys [OF assms] by simp_all

lemma measured_valid:
  assumes "measure_fonts cdw fonts [] [] = Inr (darkness, width)"
    and "\<forall>name subs d w. cdw name subs = Inr (d, w) \<longrightarrow> valid_float d \<and> valid_float w"
  shows "\<forall>v\<in>snd ` set darkness. valid_float v" and "\<forall>v\<in>snd ` set width. valid_float v"
  using measure_fonts_values [OF assms(1)] assms(2) by fastforce+


lemma assign_bands_total:
  assumes "\<forall>n\<in>fst ` set fonts. \<exists>v b. map_of raw n = Some v \<and> band_of v lo rng = Inr b"
  shows "\<exists>bands. assign_bands raw lo rng fonts acc = Inr bands"
  using assms
proof (induction fonts arbitrary: acc)
  case Nil
  show ?case by simp
next
  case (Cons f fonts)
  obtain name subs where f: "f = (name, subs)" by (cases f)
  from Cons.prems f obtain v b where vb: "map_of raw name = Some v" "band_of v lo rng = Inr b"
    by auto
  from Cons.prems have "\<forall>n\<in>fst ` set fonts. \<exists>v b. map_of raw n = Some v \<and> band_of v lo rng = Inr b"
    by simp
  from Cons.IH [OF this, of "AList.update name b acc"] f vb show ?case
    by simp
qed

lemma normalize_total:
  assumes ne: "raw \<noteq> []" and valid: "\<forall>v\<in>snd ` set raw. valid_float v"
    and fin: "\<forall>v\<in>snd ` set raw. \<exists>x. v = Finite x \<and> 0 \<le> x"
    and keys: "fst ` set fonts \<subseteq> fst ` set raw"
  shows "\<exists>bands. normalize raw fonts = Inr bands"
proof -
  from find_extremes_nonempty [OF ne] obtain lo hi where e: "find_extremes raw = Inr (lo, hi)"
    by blast
  note lo_in = find_extremes_InrD(2) [OF e] and hi_in = find_extremes_InrD(3) [OF e]
  note ext = find_extremes_InrD(4) [OF e]
  from lo_in fin valid obtain l where l: "lo = Finite l" "0 \<le> l" "is_double l" by fastforce
  from hi_in fin valid obtain h where h: "hi = Finite h" "0 \<le> h" "is_double h" by fastforce
  from ext [OF lo_in] l h have lh: "l \<le> h" by simp
  show ?thesis
  proof (cases "feq (fsub hi lo) (Finite 0)")
    case True
    with e show ?thesis by (simp add: normalize_def)
  next
    case False
    with l h have "l \<noteq> h" by (auto simp add: feq_def fl_zero)
    with lh have lt: "l < h" by simp
    have "\<exists>v b. map_of raw n = Some v \<and> band_of v lo (fsub hi lo) = Inr b"
      if n: "n \<in> fst ` set fonts" for n
    proof -
      from n keys have "n \<in> fst ` set raw" by blast
      then obtain v where v: "map_of raw n = Some v"
        using map_of_eq_None_keys [of raw n] by (cases "map_of raw n") simp_all
      then have v_in: "v \<in> snd ` set raw" by (rule map_of_SomeD_snd)
      with fin valid obtain a where a: "v = Finite a" "0 \<le> a" "is_double a" by fastforce
      from ext [OF v_in] a l h have "l \<le> a" "a \<le> h" by simp_all
      from band_of_total [OF l(3) a(3) h(3) l(2) this lt] v a l h show ?thesis
        by simp
    qed
    then have "\<exists>bands. assign_bands raw lo (fsub hi lo) fonts [] = Inr bands"
      by (intro assign_bands_total) blast
    with e False show ?thesis by (simp add: normalize_def)
  qed
qed

lemma group_by_attributes_total:
  assumes m: "measure_fonts cdw fonts [] [] = Inr (darkness, width)"
    and valid: "\<forall>name subs d w. cdw name subs = Inr (d, w) \<longrightarrow> valid_float d \<and> valid_float w"
    and ne: "fonts \<noteq> []"
    and fin: "\<forall>v\<in>snd ` set darkness \<union> snd ` set width. \<exists>x. v = Finite x \<and> 0 \<le> x"
  shows "\<exists>weights widths. group_by_attributes cdw fonts = Inr (weights, widths)"
proof -
  note keys = measured_keys [OF m]
  note vals = measured_valid [OF m valid]
  from ne keys have nd: "darkness \<noteq> []" and nw: "width \<noteq> []" by auto
  from fin have fd: "\<forall>v\<in>snd ` set darkness. \<exists>x. v = Finite x \<and> 0 \<le> x"
    and fw: "\<forall>v\<in>snd ` set width. \<exists>x. v = Finite x \<and> 0 \<le> x"
    by blast+
  from keys have kd: "fst ` set fonts \<subseteq> fst ` set darkness"
    and kw: "fst ` set fonts \<subseteq> fst ` set width"
    by simp_all
  from normalize_total [OF nd vals(1) fd kd]
  obtain weights where "normalize darkness fonts = Inr weights" by blast
  moreover
  from normalize_total [OF nw vals(2) fw kw]
  obtain widths where "normalize width fonts = Inr widths" by blast
  ultimately show ?thesis
    using m by (simp add: group_by_attributes_def)
qed

section \<open>The bands of a batch\<close>

lemma example_run:
  "measure_fonts example_measure example_fonts [] [] =
     Inr ([(''Light.ttf'', Finite (1/8)), (''Regular.ttf'', Finite (1/4)), (''Bold.ttf'', Finite (1/2))],
          [(''Light.ttf'', Finite 2), (''Regular.ttf'', Finite 3), (''Bold.ttf'', Finite 4)])"
  "group_by_attributes example_measure example_fonts =
     Inr ([(''Light.ttf'', 1), (''Regular.ttf'', 4), (''Bold.ttf'', 10)],
          [(''Light.ttf'', 1), (''Regular.ttf'', 6), (''Bold.ttf'', 10)])"
  by code_simp+

lemma example_doubles:
  "is_double (1/8)" "is_double (1/4)" "is_double (1/2)" "is_double 2" "is_double 3" "is_double 4"
  by code_simp+

lemma example_measure_valid:
  "\<forall>name subs d w. example_measure name subs = Inr (d, w) \<longrightarrow> valid_float d \<and> valid_float w"
  by (auto simp add: example_measure_def example_doubles split: if_splits)

text \<open>
  C1. Every weight band and every width band that \<^verbatim>\<open>group_by_attributes\<close> returns is an
  integer from 1 to 10, whichever branch (the zero-range one or the general one) produced
  it: no band is 0 or 11.
\<close>

theorem bands_between_1_and_10:
  assumes "group_by_attributes cdw fonts = Inr (weights, widths)"
  shows "(\<forall>(name, band)\<in>set weights. 1 \<le> band \<and> band \<le> 10)
       \<and> (\<forall>(name, band)\<in>set widths. 1 \<le> band \<and> band \<le> 10)"
proof -
  from group_by_attributes_InrD [OF assms] obtain darkness width
    where "normalize darkness fonts = Inr weights" "normalize width fonts = Inr widths"
    by blast
  then show ?thesis
    by (auto dest: normalize_bounds)
qed

theorem bands_between_1_and_10_witness:
  "group_by_attributes example_measure example_fonts =
     Inr ([(''Light.ttf'', 1), (''Regular.ttf'', 4), (''Bold.ttf'', 10)],
          [(''Light.ttf'', 1), (''Regular.ttf'', 6), (''Bold.ttf'', 10)])
   \<and> (1 :: int) \<le> 4 \<and> (4 :: int) \<le> 10 \<and> (1 :: int) \<le> 6 \<and> (6 :: int) \<le> 10"
  using bands_between_1_and_10 [OF example_run(2)] example_run(2) by simp

text \<open>
  C3. In a batch that is not degenerate on a metric, a font whose measured value is the
  minimum of the batch receives band 1 and a font whose value is the maximum receives band
  10, for the darkness and for the relative width alike. A value \<open>v\<close> is the minimum of the
  batch when no measured value is below it, and the batch is not degenerate when some measured
  value is above it; dually for the maximum. The measured values are doubles.

  The bands exist: a batch that is not empty and whose measured values are finite and not
  negative (a darkness is a fraction, a relative width a quotient of lengths) is normalised
  without an exception. A batch with an infinite value or a NaN can end in
  \<^verbatim>\<open>ValueError\<close> or \<^verbatim>\<open>OverflowError\<close> instead, raised by \<^verbatim>\<open>floor\<close>.
\<close>

theorem extremes_get_bands_1_and_10:
  assumes "measure_fonts cdw fonts [] [] = Inr (darkness, width)"
    and "\<forall>name subs d w. cdw name subs = Inr (d, w) \<longrightarrow> valid_float d \<and> valid_float w"
  shows "(fonts \<noteq> [] \<and> (\<forall>v\<in>snd ` set darkness \<union> snd ` set width. \<exists>x. v = Finite x \<and> 0 \<le> x) \<longrightarrow>
            (\<exists>weights widths. group_by_attributes cdw fonts = Inr (weights, widths)))
       \<and> (\<forall>weights widths. group_by_attributes cdw fonts = Inr (weights, widths) \<longrightarrow>
            (\<forall>name v. map_of darkness name = Some v \<longrightarrow>
               ((\<forall>u\<in>snd ` set darkness. \<not> flt u v) \<and> (\<exists>u\<in>snd ` set darkness. flt v u) \<longrightarrow>
                  map_of weights name = Some 1)
             \<and> ((\<forall>u\<in>snd ` set darkness. \<not> flt v u) \<and> (\<exists>u\<in>snd ` set darkness. flt u v) \<longrightarrow>
                  map_of weights name = Some 10))
          \<and> (\<forall>name v. map_of width name = Some v \<longrightarrow>
               ((\<forall>u\<in>snd ` set width. \<not> flt u v) \<and> (\<exists>u\<in>snd ` set width. flt v u) \<longrightarrow>
                  map_of widths name = Some 1)
             \<and> ((\<forall>u\<in>snd ` set width. \<not> flt v u) \<and> (\<exists>u\<in>snd ` set width. flt u v) \<longrightarrow>
                  map_of widths name = Some 10)))"
proof -
  have total: "\<exists>weights widths. group_by_attributes cdw fonts = Inr (weights, widths)"
    if "fonts \<noteq> [] \<and> (\<forall>v\<in>snd ` set darkness \<union> snd ` set width. \<exists>x. v = Finite x \<and> 0 \<le> x)"
  proof -
    from that have "fonts \<noteq> []"
      and "\<forall>v\<in>snd ` set darkness \<union> snd ` set width. \<exists>x. v = Finite x \<and> 0 \<le> x"
      by (rule conjunct1, rule conjunct2)
    with assms show ?thesis by (rule group_by_attributes_total)
  qed
  have dark:
    "\<forall>name v. map_of darkness name = Some v \<longrightarrow>
       ((\<forall>u\<in>snd ` set darkness. \<not> flt u v) \<and> (\<exists>u\<in>snd ` set darkness. flt v u) \<longrightarrow>
          map_of weights name = Some 1)
     \<and> ((\<forall>u\<in>snd ` set darkness. \<not> flt v u) \<and> (\<exists>u\<in>snd ` set darkness. flt u v) \<longrightarrow>
          map_of weights name = Some 10)"
    if g: "group_by_attributes cdw fonts = Inr (weights, widths)" for weights widths
  proof (rule allI, rule allI, rule impI)
    fix name v
    assume v: "map_of darkness name = Some v"
    from group_by_attributes_InrD [OF g] assms(1)
    have n: "normalize darkness fonts = Inr weights"
      by auto
    from v have name: "name \<in> fst ` set fonts"
      unfolding measured_keys(1) [OF assms(1), symmetric] by (rule map_of_in_keys)
    from normalize_least_greatest [OF n measured_valid(1) [OF assms] v name]
    show "((\<forall>u\<in>snd ` set darkness. \<not> flt u v) \<and> (\<exists>u\<in>snd ` set darkness. flt v u) \<longrightarrow>
             map_of weights name = Some 1)
        \<and> ((\<forall>u\<in>snd ` set darkness. \<not> flt v u) \<and> (\<exists>u\<in>snd ` set darkness. flt u v) \<longrightarrow>
             map_of weights name = Some 10)"
      by (rule conjI)
  qed
  have wide:
    "\<forall>name v. map_of width name = Some v \<longrightarrow>
       ((\<forall>u\<in>snd ` set width. \<not> flt u v) \<and> (\<exists>u\<in>snd ` set width. flt v u) \<longrightarrow>
          map_of widths name = Some 1)
     \<and> ((\<forall>u\<in>snd ` set width. \<not> flt v u) \<and> (\<exists>u\<in>snd ` set width. flt u v) \<longrightarrow>
          map_of widths name = Some 10)"
    if g: "group_by_attributes cdw fonts = Inr (weights, widths)" for weights widths
  proof (rule allI, rule allI, rule impI)
    fix name v
    assume v: "map_of width name = Some v"
    from group_by_attributes_InrD [OF g] assms(1)
    have n: "normalize width fonts = Inr widths"
      by auto
    from v have name: "name \<in> fst ` set fonts"
      unfolding measured_keys(2) [OF assms(1), symmetric] by (rule map_of_in_keys)
    from normalize_least_greatest [OF n measured_valid(2) [OF assms] v name]
    show "((\<forall>u\<in>snd ` set width. \<not> flt u v) \<and> (\<exists>u\<in>snd ` set width. flt v u) \<longrightarrow>
             map_of widths name = Some 1)
        \<and> ((\<forall>u\<in>snd ` set width. \<not> flt v u) \<and> (\<exists>u\<in>snd ` set width. flt u v) \<longrightarrow>
             map_of widths name = Some 10)"
      by (rule conjI)
  qed
  show ?thesis
  proof (rule conjI)
    show "fonts \<noteq> [] \<and> (\<forall>v\<in>snd ` set darkness \<union> snd ` set width. \<exists>x. v = Finite x \<and> 0 \<le> x) \<longrightarrow>
            (\<exists>weights widths. group_by_attributes cdw fonts = Inr (weights, widths))"
      by (rule impI) (rule total)
  next
    show "\<forall>weights widths. group_by_attributes cdw fonts = Inr (weights, widths) \<longrightarrow>
            (\<forall>name v. map_of darkness name = Some v \<longrightarrow>
               ((\<forall>u\<in>snd ` set darkness. \<not> flt u v) \<and> (\<exists>u\<in>snd ` set darkness. flt v u) \<longrightarrow>
                  map_of weights name = Some 1)
             \<and> ((\<forall>u\<in>snd ` set darkness. \<not> flt v u) \<and> (\<exists>u\<in>snd ` set darkness. flt u v) \<longrightarrow>
                  map_of weights name = Some 10))
          \<and> (\<forall>name v. map_of width name = Some v \<longrightarrow>
               ((\<forall>u\<in>snd ` set width. \<not> flt u v) \<and> (\<exists>u\<in>snd ` set width. flt v u) \<longrightarrow>
                  map_of widths name = Some 1)
             \<and> ((\<forall>u\<in>snd ` set width. \<not> flt v u) \<and> (\<exists>u\<in>snd ` set width. flt u v) \<longrightarrow>
                  map_of widths name = Some 10))"
    proof (rule allI, rule allI, rule impI, rule conjI)
      fix weights widths
      assume g: "group_by_attributes cdw fonts = Inr (weights, widths)"
      show "\<forall>name v. map_of darkness name = Some v \<longrightarrow>
               ((\<forall>u\<in>snd ` set darkness. \<not> flt u v) \<and> (\<exists>u\<in>snd ` set darkness. flt v u) \<longrightarrow>
                  map_of weights name = Some 1)
             \<and> ((\<forall>u\<in>snd ` set darkness. \<not> flt v u) \<and> (\<exists>u\<in>snd ` set darkness. flt u v) \<longrightarrow>
                  map_of weights name = Some 10)"
        using g by (rule dark)
      show "\<forall>name v. map_of width name = Some v \<longrightarrow>
               ((\<forall>u\<in>snd ` set width. \<not> flt u v) \<and> (\<exists>u\<in>snd ` set width. flt v u) \<longrightarrow>
                  map_of widths name = Some 1)
             \<and> ((\<forall>u\<in>snd ` set width. \<not> flt v u) \<and> (\<exists>u\<in>snd ` set width. flt u v) \<longrightarrow>
                  map_of widths name = Some 10)"
        using g by (rule wide)
    qed
  qed
qed

theorem extremes_get_bands_1_and_10_witness:
  "measure_fonts example_measure example_fonts [] [] =
     Inr ([(''Light.ttf'', Finite (1/8)), (''Regular.ttf'', Finite (1/4)), (''Bold.ttf'', Finite (1/2))],
          [(''Light.ttf'', Finite 2), (''Regular.ttf'', Finite 3), (''Bold.ttf'', Finite 4)])
   \<and> example_fonts \<noteq> []
   \<and> group_by_attributes example_measure example_fonts =
     Inr ([(''Light.ttf'', 1), (''Regular.ttf'', 4), (''Bold.ttf'', 10)],
          [(''Light.ttf'', 1), (''Regular.ttf'', 6), (''Bold.ttf'', 10)])
   \<and> \<not> flt (Finite (1/4)) (Finite (1/8)) \<and> \<not> flt (Finite (1/2)) (Finite (1/8))
   \<and> flt (Finite (1/8)) (Finite (1/2))
   \<and> map_of [(''Light.ttf'', 1 :: int), (''Regular.ttf'', 4), (''Bold.ttf'', 10)] ''Light.ttf'' = Some 1
   \<and> map_of [(''Light.ttf'', 1 :: int), (''Regular.ttf'', 4), (''Bold.ttf'', 10)] ''Bold.ttf'' = Some 10
   \<and> \<not> flt (Finite 4) (Finite 2) \<and> \<not> flt (Finite 4) (Finite 3) \<and> flt (Finite 2) (Finite 4)
   \<and> map_of [(''Light.ttf'', 1 :: int), (''Regular.ttf'', 6), (''Bold.ttf'', 10)] ''Light.ttf'' = Some 1
   \<and> map_of [(''Light.ttf'', 1 :: int), (''Regular.ttf'', 6), (''Bold.ttf'', 10)] ''Bold.ttf'' = Some 10"
  using extremes_get_bands_1_and_10 [OF example_run(1) example_measure_valid] example_run
  by (simp add: example_fonts_def)

text \<open>
  C4. Within one batch the bands are monotone in the measured values: if font \<open>A\<close> is
  strictly lighter than font \<open>B\<close> then the weight band of \<open>A\<close> is at most that of \<open>B\<close>,
  and likewise for the relative width and the width band.
\<close>

theorem bands_monotone:
  assumes "group_by_attributes cdw fonts = Inr (weights, widths)"
    and "measure_fonts cdw fonts [] [] = Inr (darkness, width)"
  shows "(\<forall>A B a b. map_of darkness A = Some a \<and> map_of darkness B = Some b \<and> flt a b \<longrightarrow>
            (\<exists>wa wb. map_of weights A = Some wa \<and> map_of weights B = Some wb \<and> wa \<le> wb))
       \<and> (\<forall>A B a b. map_of width A = Some a \<and> map_of width B = Some b \<and> flt a b \<longrightarrow>
            (\<exists>wa wb. map_of widths A = Some wa \<and> map_of widths B = Some wb \<and> wa \<le> wb))"
proof -
  from group_by_attributes_InrD [OF assms(1)] assms(2)
  have n: "normalize darkness fonts = Inr weights" "normalize width fonts = Inr widths"
    by auto
  note keys = measured_keys [OF assms(2)]
  have "\<exists>wa wb. map_of weights A = Some wa \<and> map_of weights B = Some wb \<and> wa \<le> wb"
    if "map_of darkness A = Some a" "map_of darkness B = Some b" "flt a b" for A B a b
    using n(1) that
  proof (rule normalize_mono)
    from that(1) show "A \<in> fst ` set fonts"
      unfolding keys(1) [symmetric] by (rule map_of_in_keys)
    from that(2) show "B \<in> fst ` set fonts"
      unfolding keys(1) [symmetric] by (rule map_of_in_keys)
  qed
  moreover
  have "\<exists>wa wb. map_of widths A = Some wa \<and> map_of widths B = Some wb \<and> wa \<le> wb"
    if "map_of width A = Some a" "map_of width B = Some b" "flt a b" for A B a b
    using n(2) that
  proof (rule normalize_mono)
    from that(1) show "A \<in> fst ` set fonts"
      unfolding keys(2) [symmetric] by (rule map_of_in_keys)
    from that(2) show "B \<in> fst ` set fonts"
      unfolding keys(2) [symmetric] by (rule map_of_in_keys)
  qed
  ultimately show ?thesis by blast
qed

theorem bands_monotone_witness:
  "group_by_attributes example_measure example_fonts =
     Inr ([(''Light.ttf'', 1), (''Regular.ttf'', 4), (''Bold.ttf'', 10)],
          [(''Light.ttf'', 1), (''Regular.ttf'', 6), (''Bold.ttf'', 10)])
   \<and> flt (Finite (1/4)) (Finite (1/2)) \<and> (4 :: int) \<le> 10 \<and> flt (Finite 3) (Finite 4) \<and> (6 :: int) \<le> 10"
  using bands_monotone [OF example_run(2) example_run(1)] example_run(2)
  by simp

text \<open>
  C5. When all fonts of a batch measure the same (finite) value on a metric, so that
  \<open>hi - lo\<close> is zero, the normalisation of that metric does not raise: it gives every font
  of the batch the band 5, and \<^verbatim>\<open>group_by_attributes\<close> can then fail only in the
  normalisation of the other metric.
\<close>

theorem tied_metric_gets_band_5:
  assumes "measure_fonts cdw fonts [] [] = Inr (darkness, width)" and "fonts \<noteq> []"
  shows "((\<forall>v\<in>snd ` set darkness. v = Finite c) \<longrightarrow>
            group_by_attributes cdw fonts =
              (case normalize width fonts of
                 Inl e \<Rightarrow> Inl e | Inr widths \<Rightarrow> Inr (midpoint_bands fonts [], widths)))
       \<and> ((\<forall>v\<in>snd ` set width. v = Finite c) \<longrightarrow>
            group_by_attributes cdw fonts =
              (case normalize darkness fonts of
                 Inl e \<Rightarrow> Inl e | Inr weights \<Rightarrow> Inr (weights, midpoint_bands fonts [])))
       \<and> (\<forall>name\<in>fst ` set fonts. map_of (midpoint_bands fonts []) name = Some 5)"
proof -
  note keys = measured_keys [OF assms(1)]
  from assms(2) keys have ne: "darkness \<noteq> []" "width \<noteq> []"
    by auto
  have "group_by_attributes cdw fonts =
      (case normalize width fonts of Inl e \<Rightarrow> Inl e | Inr widths \<Rightarrow> Inr (midpoint_bands fonts [], widths))"
    if "\<forall>v\<in>snd ` set darkness. v = Finite c"
    using normalize_degenerate [OF ne(1) that, of fonts] assms(1)
    by (simp add: group_by_attributes_def)
  moreover
  have "group_by_attributes cdw fonts =
      (case normalize darkness fonts of Inl e \<Rightarrow> Inl e | Inr weights \<Rightarrow> Inr (weights, midpoint_bands fonts []))"
    if "\<forall>v\<in>snd ` set width. v = Finite c"
    using normalize_degenerate [OF ne(2) that, of fonts] assms(1)
    by (simp add: group_by_attributes_def split: sum.splits)
  moreover
  have "\<forall>name\<in>fst ` set fonts. map_of (midpoint_bands fonts []) name = Some 5"
    by (simp add: midpoint_bands_map_of)
  ultimately show ?thesis by blast
qed

lemma tied_run:
  "measure_fonts tied_measure example_fonts [] [] =
     Inr ([(''Light.ttf'', Finite (1/4)), (''Regular.ttf'', Finite (1/4)), (''Bold.ttf'', Finite (1/4))],
          [(''Light.ttf'', Finite 3), (''Regular.ttf'', Finite 3), (''Bold.ttf'', Finite 3)])"
  "group_by_attributes tied_measure example_fonts =
     Inr ([(''Light.ttf'', 5), (''Regular.ttf'', 5), (''Bold.ttf'', 5)],
          [(''Light.ttf'', 5), (''Regular.ttf'', 5), (''Bold.ttf'', 5)])"
  by code_simp+

theorem tied_metric_gets_band_5_witness:
  "group_by_attributes tied_measure example_fonts =
     Inr ([(''Light.ttf'', 5), (''Regular.ttf'', 5), (''Bold.ttf'', 5)],
          [(''Light.ttf'', 5), (''Regular.ttf'', 5), (''Bold.ttf'', 5)])
   \<and> example_fonts \<noteq> []
   \<and> group_by_attributes tied_measure example_fonts =
       (case normalize [(''Light.ttf'', Finite 3), (''Regular.ttf'', Finite 3), (''Bold.ttf'', Finite 3)]
               example_fonts of
          Inl e \<Rightarrow> Inl e | Inr widths \<Rightarrow> Inr (midpoint_bands example_fonts [], widths))
   \<and> map_of (midpoint_bands example_fonts []) ''Regular.ttf'' = Some 5"
proof -
  have ne: "example_fonts \<noteq> []"
    by (simp add: example_fonts_def)
  note inst = tied_metric_gets_band_5 [OF tied_run(1) ne, of "1/4"]
  from inst have "group_by_attributes tied_measure example_fonts =
       (case normalize [(''Light.ttf'', Finite 3), (''Regular.ttf'', Finite 3), (''Bold.ttf'', Finite 3)]
               example_fonts of
          Inl e \<Rightarrow> Inl e | Inr widths \<Rightarrow> Inr (midpoint_bands example_fonts [], widths))"
    by simp
  moreover from inst have "map_of (midpoint_bands example_fonts []) ''Regular.ttf'' = Some 5"
    by (simp add: example_fonts_def)
  ultimately show ?thesis
    using tied_run(2) ne by simp
qed

section \<open>The worked example of the specification\<close>

text \<open>
  C2, as stated, fails: for the batch \<^verbatim>\<open>{FontA: 0.10, FontB: 0.30, FontC: 0.50}\<close> the
  normalisation does not produce the weight bands \<^verbatim>\<open>{FontA: 1, FontB: 6, FontC: 10}\<close>.
\<close>

theorem spec_example_bands_counterexample:
  "normalize spec_darkness spec_fonts \<noteq> Inr [(''FontA'', 1), (''FontB'', 6), (''FontC'', 10)]"
  by code_simp

text \<open>
  C2, amended. The batch is measured as given and its weight bands are
  \<^verbatim>\<open>{FontA: 1, FontB: 5, FontC: 10}\<close>. In double arithmetic \<open>0.30 - 0.10\<close> is
  \<open>0.19999999999999998\<close>, its quotient by the range \<open>0.4\<close> is \<open>0.49999999999999994\<close>, and
  ten times that rounds to \<open>4.999999999999999\<close>, whose floor is 4.
\<close>

theorem spec_example_bands:
  "measure_fonts spec_measure spec_fonts [] [] =
     Inr (spec_darkness, [(''FontA'', Finite 1), (''FontB'', Finite 1), (''FontC'', Finite 1)])
   \<and> normalize spec_darkness spec_fonts = Inr [(''FontA'', 1), (''FontB'', 5), (''FontC'', 10)]
   \<and> group_by_attributes spec_measure spec_fonts =
       Inr ([(''FontA'', 1), (''FontB'', 5), (''FontC'', 10)],
            [(''FontA'', 5), (''FontB'', 5), (''FontC'', 5)])"
  by code_simp

lemma spec_example_steps:
  "fl (10 / 100) = Finite (3602879701896397 / 36028797018963968)"
  "fl (30 / 100) = Finite (5404319552844595 / 18014398509481984)"
  "fsub (fl (30 / 100)) (fl (10 / 100)) = Finite (7205759403792793 / 36028797018963968)"
  "fsub (fl (50 / 100)) (fl (10 / 100)) = Finite (3602879701896397 / 9007199254740992)"
  "fdiv (Finite (7205759403792793 / 36028797018963968)) (Finite (3602879701896397 / 9007199254740992))
     = Inr (Finite (9007199254740991 / 18014398509481984))"
  "fmul (Finite 10) (Finite (9007199254740991 / 18014398509481984))
     = Finite (5629499534213119 / 1125899906842624)"
  "py_floor (Finite (5629499534213119 / 1125899906842624)) = Inr 4"
  by code_simp+

section \<open>A surface without pixels\<close>

lemma row_loop_no_rows:
  "row_loop Python2 pixel_data data_stride 0 xs avg = Inr avg"
  by (induction xs) (simp_all add: xrange_def)

lemma measurement_exception_ends_run:
  "cdw name subs = Inl e \<Longrightarrow> group_by_attributes cdw ((name, subs) # fonts) = Inl e"
  by (simp add: group_by_attributes_def)

text \<open>
  C6. The specification wants a surface of zero area (zero width or zero height) reported
  as a \<^verbatim>\<open>MeasurementError\<close>. The function does not do that; it raises a built-in
  exception. Under Python 3 it is \<^verbatim>\<open>NameError\<close>, raised by the header of the pixel loop
  as for any other surface. Under Python 2 no pixel is read, the sum stays \<open>0.0\<close>, and its
  division by the area raises \<^verbatim>\<open>ZeroDivisionError\<close>. In neither case is a darkness of 0
  returned.
\<close>

theorem zero_area_surface_exception:
  assumes "data_width = 0 \<or> data_height = 0"
  shows "compute_darkness_and_width Python3 pixel_data data_width data_stride data_height
           text_width x_height = Inl NameError
       \<and> compute_darkness_and_width Python2 pixel_data data_width data_stride data_height
           text_width x_height = Inl ZeroDivisionError"
  using assms
  by (auto simp add: compute_darkness_and_width_def xrange_def float_of_int_def
      row_loop_no_rows fl_zero)

theorem zero_area_surface_exception_witness:
  "compute_darkness_and_width Python3 [] 0 0 0 (Finite 0) (Finite 0) = Inl NameError
   \<and> compute_darkness_and_width Python2 [] 0 0 0 (Finite 0) (Finite 0) = Inl ZeroDivisionError
   \<and> compute_darkness_and_width Python3 [] 7 28 0 (Finite 7) (Finite 14) = Inl NameError
   \<and> compute_darkness_and_width Python2 [] 7 28 0 (Finite 7) (Finite 14) = Inl ZeroDivisionError"
  using zero_area_surface_exception [of 0 0 "[]" 0 "Finite 0" "Finite 0"]
    zero_area_surface_exception [of 7 0 "[]" 28 "Finite 7" "Finite 14"]
  by simp

section \<open>The empty batch\<close>

text \<open>
  C10. \<^verbatim>\<open>group_by_attributes\<close> is partial on the empty batch: with no font, the minimum
  of the empty collection of darkness values raises \<^verbatim>\<open>ValueError\<close>, and no band mapping
  is returned.
\<close>

theorem group_by_attributes_empty_batch:
  "group_by_attributes cdw [] = Inl ValueError"
  by (simp add: group_by_attributes_def normalize_def find_extremes_def py_min_def)

end
